theory Spec2Isabelle
  imports Main "HOL-Library.Char_ord" "HOL-Library.List_Lexorder" "HOL-Library.Multiset"
begin

section \<open>Data model of the report service\<close>

text \<open>
  The structs of \<^verbatim>\<open>report_service.go\<close>. Go's \<^verbatim>\<open>string\<close> is a byte sequence,
  which is what \<^typ>\<open>string\<close> is; \<^verbatim>\<open><\<close> on Go strings is the bytewise lexicographic
  order, which is the order the two imported library theories give to \<^typ>\<open>string\<close>.
  The counters are Go \<^verbatim>\<open>int\<close>s; they are written by \<^verbatim>\<open>len\<close> only, so they are modelled as
  \<^typ>\<open>int\<close>. A field of slice type can be \<^verbatim>\<open>nil\<close>: it is an option, \<open>None\<close> the nil slice.
\<close>

record ReportSummary =
  Scanned :: int
  NewResources :: int
  UpdatedResources :: int

record TagRecord =
  File :: string
  ResourceID :: string
  TagKey :: string
  OldValue :: string
  UpdatedValue :: string
  YorTraceID :: string

record Report =
  Summary :: ReportSummary
  NewResourceTags :: "TagRecord list option"
  UpdatedResourceTags :: "TagRecord list option"

record ReportService =
  report :: Report

text \<open>Go's \<^verbatim>\<open>append(s, x)\<close> on a slice that may be nil, and the elements of such a slice.\<close>

fun append_slice :: "'a list option \<Rightarrow> 'a \<Rightarrow> 'a list option" where
  "append_slice None x = Some [x]"
| "append_slice (Some xs) x = Some (xs @ [x])"

fun elems :: "'a list option \<Rightarrow> 'a list" where
  "elems None = []"
| "elems (Some xs) = xs"

subsection \<open>The change accumulator, as the report service reads it\<close>

text \<open>
  The accumulator, the block interface and the tag types are declared outside
  \<^verbatim>\<open>report_service.go\<close>; they are modelled by what the file reads from them: a tag through
  \<^verbatim>\<open>GetKey\<close> and \<^verbatim>\<open>GetValue\<close>, a diff entry through its fields \<^verbatim>\<open>Key\<close>, \<^verbatim>\<open>PrevValue\<close> and
  \<^verbatim>\<open>NewValue\<close>, a diff through \<^verbatim>\<open>Added\<close> and \<^verbatim>\<open>Updated\<close>, a block through its getters, and the
  accumulator through its three block collections. The collections are only ranged over
  and measured, so a nil one and an empty one are the same list.
\<close>

record tag =
  GetKey :: string
  GetValue :: string

record TagDiffEntry =
  Key :: string
  PrevValue :: string
  NewValue :: string

record TagDiff =
  Added :: "tag list"
  Updated :: "TagDiffEntry list"

record block =
  GetFilePath :: string
  GetResourceID :: string
  GetTraceID :: string
  GetNewTags :: "tag list"
  TagsDiff :: TagDiff

record TagChangeAccumulator =
  ScannedBlocks :: "block list"
  NewBlockTraces :: "block list"
  UpdatedBlockTraces :: "block list"

subsection \<open>Program state\<close>

text \<open>
  The two package-level singletons, the store of diff objects, and what the printing
  functions act on. A diff is handled through a pointer, and \<^verbatim>\<open>sort.SliceStable\<close> permutes
  the slice it is given in place, so diffs live in a store: an address is an index into
  \<open>heap\<close>. \<open>files\<close> holds the contents of the files by name, \<open>unwritable\<close> the names the
  operating system refuses to open for writing, each with the text of its error, and
  \<open>warnings\<close> the arguments of the warnings logged so far.
\<close>

record world =
  TagChangeAccumulatorInstance :: TagChangeAccumulator
  ReportServiceInst :: ReportService
  heap :: "TagDiff list"
  files :: "string \<rightharpoonup> string"
  unwritable :: "string \<rightharpoonup> string"
  warnings :: "string list list"

text \<open>
  Modelled from the spec: \<^verbatim>\<open>CalculateTagsDiff\<close>, a method of the block type, which is not
  in \<^verbatim>\<open>report_service.go\<close>. The spec has it as the diff operation of a block, returning a
  data-only value with the two sequences \<^verbatim>\<open>Added\<close> and \<^verbatim>\<open>Updated\<close>: the call allocates a new
  diff object holding the block's diff and returns its address.
\<close>

definition CalculateTagsDiff :: "block \<Rightarrow> TagDiff list \<Rightarrow> nat \<times> TagDiff list" where
  "CalculateTagsDiff b h = (length h, h @ [TagsDiff b])"

section \<open>CreateReport\<close>

text \<open>
  \<^verbatim>\<open>sort.SliceStable(diff.Added, less)\<close> with \<^verbatim>\<open>less\<close> comparing keys by \<^verbatim>\<open><\<close>: the stable sort
  by key, written into the diff object at address \<open>p\<close>. Likewise for \<^verbatim>\<open>diff.Updated\<close>.
\<close>

definition sortAdded :: "nat \<Rightarrow> TagDiff list \<Rightarrow> TagDiff list" where
  "sortAdded p h = h[p := (h ! p)\<lparr>Added := sort_key GetKey (Added (h ! p))\<rparr>]"

definition sortUpdated :: "nat \<Rightarrow> TagDiff list \<Rightarrow> TagDiff list" where
  "sortUpdated p h = h[p := (h ! p)\<lparr>Updated := sort_key Key (Updated (h ! p))\<rparr>]"

text \<open>The three record literals of \<^verbatim>\<open>CreateReport\<close>.\<close>

definition newTagRecord :: "block \<Rightarrow> tag \<Rightarrow> TagRecord" where
  "newTagRecord b t =
     \<lparr>File = GetFilePath b, ResourceID = GetResourceID b, TagKey = GetKey t,
      OldValue = [], UpdatedValue = GetValue t, YorTraceID = GetTraceID b\<rparr>"

definition addedTagRecord :: "block \<Rightarrow> tag \<Rightarrow> TagRecord" where
  "addedTagRecord b v =
     \<lparr>File = GetFilePath b, ResourceID = GetResourceID b, TagKey = GetKey v,
      OldValue = [], UpdatedValue = GetValue v, YorTraceID = GetTraceID b\<rparr>"

definition updatedTagRecord :: "block \<Rightarrow> TagDiffEntry \<Rightarrow> TagRecord" where
  "updatedTagRecord b v =
     \<lparr>File = GetFilePath b, ResourceID = GetResourceID b, TagKey = Key v,
      OldValue = PrevValue v, UpdatedValue = NewValue v, YorTraceID = GetTraceID b\<rparr>"

text \<open>The bodies of the loops: each appends one record to a sequence of the stored report.\<close>

definition appendNewResourceTag :: "TagRecord \<Rightarrow> Report \<Rightarrow> Report" where
  "appendNewResourceTag tr rep =
     rep\<lparr>NewResourceTags := append_slice (NewResourceTags rep) tr\<rparr>"

definition appendUpdatedResourceTag :: "TagRecord \<Rightarrow> Report \<Rightarrow> Report" where
  "appendUpdatedResourceTag tr rep =
     rep\<lparr>UpdatedResourceTags := append_slice (UpdatedResourceTags rep) tr\<rparr>"

definition newBlockStep :: "block \<Rightarrow> Report \<Rightarrow> Report" where
  "newBlockStep b rep =
     fold (\<lambda>t. appendNewResourceTag (newTagRecord b t)) (GetNewTags b) rep"

definition updatedBlockStep :: "block \<Rightarrow> Report \<times> TagDiff list \<Rightarrow> Report \<times> TagDiff list" where
  "updatedBlockStep b st =
     (let (rep, h) = st;
          (diff, h1) = CalculateTagsDiff b h;
          h2 = sortAdded diff h1;
          rep1 = fold (\<lambda>v. appendUpdatedResourceTag (addedTagRecord b v)) (Added (h2 ! diff)) rep;
          h3 = sortUpdated diff h2;
          rep2 = fold (\<lambda>v. appendUpdatedResourceTag (updatedTagRecord b v)) (Updated (h3 ! diff)) rep1
      in (rep2, h3))"

definition CreateReport :: "world \<Rightarrow> world" where
  "CreateReport w =
     (let changesAccumulator = TagChangeAccumulatorInstance w;
          rep0 = (report (ReportServiceInst w))
                   \<lparr>Summary :=
                      \<lparr>Scanned = int (length (ScannedBlocks changesAccumulator)),
                       NewResources = int (length (NewBlockTraces changesAccumulator)),
                       UpdatedResources = int (length (UpdatedBlockTraces changesAccumulator))\<rparr>\<rparr>;
          rep1 = rep0\<lparr>NewResourceTags := Some []\<rparr>;
          rep2 = fold newBlockStep (NewBlockTraces changesAccumulator) rep1;
          rep3 = rep2\<lparr>UpdatedResourceTags := Some []\<rparr>;
          (rep4, h) = fold updatedBlockStep (UpdatedBlockTraces changesAccumulator) (rep3, heap w)
      in w\<lparr>ReportServiceInst := (ReportServiceInst w)\<lparr>report := rep4\<rparr>, heap := h\<rparr>)"

text \<open>\<^verbatim>\<open>GetReport\<close>, which is also what \<^verbatim>\<open>CreateReport\<close> returns: the stored report.\<close>

definition GetReport :: "world \<Rightarrow> Report" where
  "GetReport w = report (ReportServiceInst w)"

subsection \<open>What one pass of each loop appends\<close>

text \<open>
  The records one pass of the first loop appends for a block, the records the two inner
  loops of the second loop append for a block, and the diff object the pass leaves in the
  store.
\<close>

definition newRecords :: "block \<Rightarrow> TagRecord list" where
  "newRecords b = map (newTagRecord b) (GetNewTags b)"

definition addedRecords :: "block \<Rightarrow> TagRecord list" where
  "addedRecords b = map (addedTagRecord b) (sort_key GetKey (Added (TagsDiff b)))"

definition updatedRecords :: "block \<Rightarrow> TagRecord list" where
  "updatedRecords b = map (updatedTagRecord b) (sort_key Key (Updated (TagsDiff b)))"

definition sortedDiff :: "block \<Rightarrow> TagDiff" where
  "sortedDiff b =
     \<lparr>Added = sort_key GetKey (Added (TagsDiff b)),
      Updated = sort_key Key (Updated (TagsDiff b))\<rparr>"

section \<open>The JSON document\<close>

datatype error = UnsupportedTypeError | SyntaxError | UnmarshalTypeError | PathError string

text \<open>The text of an error, \<^verbatim>\<open>err.Error()\<close>.\<close>

fun Error :: "error \<Rightarrow> string" where
  "Error UnsupportedTypeError = ''json: unsupported type''"
| "Error SyntaxError = ''invalid character in JSON input''"
| "Error UnmarshalTypeError = ''json: cannot unmarshal value into Go value''"
| "Error (PathError msg) = msg"

subsection \<open>What encoding/json sees of a report\<close>

text \<open>
  \<^verbatim>\<open>json.MarshalIndent\<close> walks the value it is given by reflection. The values it can meet:
  integers, strings, the nil slice, slices, structs as the list of their exported fields
  under their \<^verbatim>\<open>json\<close> names in declaration order, and values of a kind it has no encoding
  for (a channel, a function, a complex number), for which it returns an error.
\<close>

datatype go_value =
    GoInt int
  | GoString string
  | GoNil
  | GoSlice "go_value list"
  | GoStruct "(string \<times> go_value) list"
  | GoChan

text \<open>The three struct types with their field tags.\<close>

definition reflectSummary :: "ReportSummary \<Rightarrow> go_value" where
  "reflectSummary s =
     GoStruct [(''scanned'', GoInt (Scanned s)),
               (''newResources'', GoInt (NewResources s)),
               (''updatedResources'', GoInt (UpdatedResources s))]"

definition reflectTagRecord :: "TagRecord \<Rightarrow> go_value" where
  "reflectTagRecord t =
     GoStruct [(''file'', GoString (File t)),
               (''resourceId'', GoString (ResourceID t)),
               (''key'', GoString (TagKey t)),
               (''oldValue'', GoString (OldValue t)),
               (''updatedValue'', GoString (UpdatedValue t)),
               (''yorTraceId'', GoString (YorTraceID t))]"

definition reflectTagRecords :: "TagRecord list option \<Rightarrow> go_value" where
  "reflectTagRecords s =
     (case s of None \<Rightarrow> GoNil | Some ts \<Rightarrow> GoSlice (map reflectTagRecord ts))"

definition reflectReport :: "Report \<Rightarrow> go_value" where
  "reflectReport r =
     GoStruct [(''summary'', reflectSummary (Summary r)),
               (''newResourceTags'', reflectTagRecords (NewResourceTags r)),
               (''updatedResourceTags'', reflectTagRecords (UpdatedResourceTags r))]"

fun supported :: "go_value \<Rightarrow> bool" where
  "supported (GoInt i) = True"
| "supported (GoString s) = True"
| "supported GoNil = True"
| "supported (GoSlice vs) = list_all supported vs"
| "supported (GoStruct fs) = list_all (\<lambda>f. supported (snd f)) fs"
| "supported GoChan = False"

subsection \<open>Numbers and strings\<close>

text \<open>Decimal digits of an integer, as \<^verbatim>\<open>strconv\<close> writes them.\<close>

definition digitChar :: "nat \<Rightarrow> char" where
  "digitChar n = ''0123456789'' ! n"

fun digits :: "nat \<Rightarrow> string" where
  "digits n = (if n < 10 then [digitChar n] else digits (n div 10) @ [digitChar (n mod 10)])"

declare digits.simps [simp del]

definition formatInt :: "int \<Rightarrow> string" where
  "formatInt i = (if i < 0 then CHR ''-'' # digits (nat (- i)) else digits (nat i))"

definition hexDigit :: "nat \<Rightarrow> char" where
  "hexDigit n = ''0123456789abcdef'' ! n"

definition byte :: "char \<Rightarrow> nat" where
  "byte c = of_char c"

text \<open>
  The encoder's table of bytes written as they are: printable ASCII other than the double
  quote, the backslash and the three characters escaped for HTML.
\<close>

definition htmlSafe :: "char \<Rightarrow> bool" where
  "htmlSafe b \<longleftrightarrow> 0x20 \<le> byte b \<and> byte b < 0x80 \<and>
     b \<noteq> CHR 0x22 \<and> b \<noteq> CHR 0x5C \<and> b \<noteq> CHR ''<'' \<and> b \<noteq> CHR ''>'' \<and> b \<noteq> CHR ''&''"

text \<open>
  The escape of an ASCII byte outside that table. The remaining control characters are
  written as \<^verbatim>\<open>\u00XX\<close> (Go releases from 1.22 on write two of them, backspace and form
  feed, as \<^verbatim>\<open>\b\<close> and \<^verbatim>\<open>\f\<close>; a JSON reader takes both spellings for the same character).
\<close>

definition escapeByte :: "char \<Rightarrow> string" where
  "escapeByte b =
     (if b = CHR 0x5C \<or> b = CHR 0x22 then [CHR 0x5C, b]
      else if b = CHR 0x0A then [CHR 0x5C, CHR ''n'']
      else if b = CHR 0x0D then [CHR 0x5C, CHR ''r'']
      else if b = CHR 0x09 then [CHR 0x5C, CHR ''t'']
      else [CHR 0x5C, CHR ''u'', CHR ''0'', CHR ''0'',
            hexDigit (byte b div 16), hexDigit (byte b mod 16)])"

text \<open>
  \<^verbatim>\<open>utf8.DecodeRuneInString\<close>, as far as the encoder uses it: the number of bytes of the
  UTF-8 sequence a string starts with, 1 when it starts with a byte that begins no
  well-formed sequence (overlong forms, surrogates and code points above U+10FFFF are
  not well-formed).
\<close>

definition inRange :: "nat \<Rightarrow> nat \<Rightarrow> char \<Rightarrow> bool" where
  "inRange lo hi c \<longleftrightarrow> lo \<le> byte c \<and> byte c \<le> hi"

definition secondLo :: "char \<Rightarrow> nat" where
  "secondLo b0 = (if byte b0 = 0xE0 then 0xA0 else if byte b0 = 0xF0 then 0x90 else 0x80)"

definition secondHi :: "char \<Rightarrow> nat" where
  "secondHi b0 = (if byte b0 = 0xED then 0x9F else if byte b0 = 0xF4 then 0x8F else 0xBF)"

fun runeSize :: "string \<Rightarrow> nat" where
  "runeSize [] = 0"
| "runeSize (b0 # bs) =
     (if byte b0 < 0x80 then 1
      else if inRange 0xC2 0xDF b0 then
        (case bs of
           b1 # _ \<Rightarrow> if inRange 0x80 0xBF b1 then 2 else 1
         | _ \<Rightarrow> 1)
      else if inRange 0xE0 0xEF b0 then
        (case bs of
           b1 # b2 # _ \<Rightarrow>
             if inRange (secondLo b0) (secondHi b0) b1 \<and> inRange 0x80 0xBF b2 then 3 else 1
         | _ \<Rightarrow> 1)
      else if inRange 0xF0 0xF4 b0 then
        (case bs of
           b1 # b2 # b3 # _ \<Rightarrow>
             if inRange (secondLo b0) (secondHi b0) b1 \<and> inRange 0x80 0xBF b2 \<and>
                inRange 0x80 0xBF b3 then 4 else 1
         | _ \<Rightarrow> 1)
      else 1)"

declare runeSize.simps [simp del]

text \<open>
  The body of a JSON string for a Go string: safe ASCII bytes as they are, other ASCII
  bytes escaped, a byte that begins no well-formed UTF-8 sequence replaced by the escape
  of U+FFFD, the line and paragraph separators U+2028 and U+2029 escaped, every other
  well-formed sequence copied.
\<close>

function appendString :: "string \<Rightarrow> string" where
  "appendString [] = []"
| "appendString (b # bs) =
     (if byte b < 0x80 then
        (if htmlSafe b then [b] else escapeByte b) @ appendString bs
      else if runeSize (b # bs) = 1 then
        [CHR 0x5C, CHR ''u'', CHR ''f'', CHR ''f'', CHR ''f'', CHR ''d''] @ appendString bs
      else if take 3 (b # bs) = [CHR 0xE2, CHR 0x80, CHR 0xA8] then
        [CHR 0x5C, CHR ''u'', CHR ''2'', CHR ''0'', CHR ''2'', CHR ''8'']
          @ appendString (drop 2 bs)
      else if take 3 (b # bs) = [CHR 0xE2, CHR 0x80, CHR 0xA9] then
        [CHR 0x5C, CHR ''u'', CHR ''2'', CHR ''0'', CHR ''2'', CHR ''9'']
          @ appendString (drop 2 bs)
      else take (runeSize (b # bs)) (b # bs)
          @ appendString (drop (runeSize (b # bs) - 1) bs))"
  by pat_completeness auto
termination
  by (relation "measure length") auto

declare appendString.simps [simp del]

definition quote :: "string \<Rightarrow> string" where
  "quote s = [CHR 0x22] @ appendString s @ [CHR 0x22]"

subsection \<open>MarshalIndent and AsJSONBytes\<close>

text \<open>
  The document \<^verbatim>\<open>json.MarshalIndent(v, "", "    ")\<close> writes: after an opening bracket or a
  comma a new line indented by four spaces per level of nesting, a space after the colon
  of a field, the closing bracket on a line of its own, and nothing between the brackets
  of an empty array or object.
\<close>

definition newline :: "nat \<Rightarrow> string" where
  "newline d = CHR 0x0A # concat (replicate d ''    '')"

fun indentValue :: "nat \<Rightarrow> go_value \<Rightarrow> string"
  and indentElems :: "nat \<Rightarrow> go_value list \<Rightarrow> string"
  and indentFields :: "nat \<Rightarrow> (string \<times> go_value) list \<Rightarrow> string" where
  "indentValue d (GoInt i) = formatInt i"
| "indentValue d (GoString s) = quote s"
| "indentValue d GoNil = ''null''"
| "indentValue d GoChan = []"
| "indentValue d (GoSlice vs) =
     (if vs = [] then ''[]''
      else ''['' @ newline (Suc d) @ indentElems (Suc d) vs @ newline d @ '']'')"
| "indentValue d (GoStruct fs) =
     (if fs = [] then ''{}''
      else ''{'' @ newline (Suc d) @ indentFields (Suc d) fs @ newline d @ ''}'')"
| "indentElems d [] = []"
| "indentElems d (v # vs) =
     indentValue d v @ (if vs = [] then [] else '','' @ newline d @ indentElems d vs)"
| "indentFields d [] = []"
| "indentFields d (f # fs) =
     quote (fst f) @ '': '' @ indentValue d (snd f) @
     (if fs = [] then [] else '','' @ newline d @ indentFields d fs)"

definition MarshalIndent :: "go_value \<Rightarrow> error + string" where
  "MarshalIndent v =
     (if supported v then Inr (indentValue 0 v) else Inl UnsupportedTypeError)"

definition AsJSONBytes :: "Report \<Rightarrow> error + string" where
  "AsJSONBytes r =
     (case MarshalIndent (reflectReport r) of
        Inl err \<Rightarrow> Inl err
      | Inr jr \<Rightarrow> Inr jr)"

subsection \<open>PrintJSONToFile\<close>

text \<open>
  \<^verbatim>\<open>os.WriteFile(name, data, 0600)\<close>: the file is created or truncated and holds the data
  afterwards, unless the operating system refuses the name.
\<close>

definition WriteFile :: "string \<Rightarrow> string \<Rightarrow> world \<Rightarrow> error option \<times> world" where
  "WriteFile name data w =
     (case unwritable w name of
        Some msg \<Rightarrow> (Some (PathError msg), w)
      | None \<Rightarrow> (None, w\<lparr>files := (files w)(name \<mapsto> data)\<rparr>))"

text \<open>
  Modelled from the spec: \<^verbatim>\<open>logger.Warning\<close>, of the logger package, which is not in
  \<^verbatim>\<open>report_service.go\<close>. The spec has a failure reported as a warning to an operator-facing
  log, with execution continuing: the call adds its arguments to the log and returns.
\<close>

definition Warning :: "string list \<Rightarrow> world \<Rightarrow> world" where
  "Warning args w = w\<lparr>warnings := warnings w @ [args]\<rparr>"

text \<open>
  \<^verbatim>\<open>PrintJSONToFile\<close> from the point where \<^verbatim>\<open>AsJSONBytes\<close> has returned \<open>res\<close>: on an error
  the byte slice is nil, a warning is logged, and the file is written all the same.
\<close>

definition writeJSONResult :: "error + string \<Rightarrow> string \<Rightarrow> world \<Rightarrow> world" where
  "writeJSONResult res file w =
     (let (jr, err) = (case res of Inl e \<Rightarrow> ([], Some e) | Inr b \<Rightarrow> (b, None));
          w1 = (if err \<noteq> None then Warning [''Failed to create report as JSON''] w else w);
          (err', w2) = WriteFile file jr w1
      in case err' of
           Some e \<Rightarrow> Warning [''Failed to write to JSON file'', Error e] w2
         | None \<Rightarrow> w2)"

definition PrintJSONToFile :: "string \<Rightarrow> world \<Rightarrow> world" where
  "PrintJSONToFile file w =
     writeJSONResult (AsJSONBytes (report (ReportServiceInst w))) file w"

section \<open>Reading the document back\<close>

text \<open>
  \<^verbatim>\<open>report_service.go\<close> has no reader of its own: a document is read back with
  \<^verbatim>\<open>json.Unmarshal\<close> into a \<^verbatim>\<open>Report\<close>. This section models that function of encoding/json
  on the \<^verbatim>\<open>Report\<close> type: the syntax of JSON, and the way values are stored into structs,
  slices, strings and integers.
\<close>

subsection \<open>JSON text\<close>

datatype json =
    JNull
  | JBool bool
  | JNumber string
  | JString string
  | JArray "json list"
  | JObject "(string \<times> json) list"

definition isSpace :: "char \<Rightarrow> bool" where
  "isSpace c \<longleftrightarrow> c = CHR '' '' \<or> c = CHR 0x09 \<or> c = CHR 0x0D \<or> c = CHR 0x0A"

definition skipSpace :: "string \<Rightarrow> string" where
  "skipSpace s = dropWhile isSpace s"

definition isDigit :: "char \<Rightarrow> bool" where
  "isDigit c \<longleftrightarrow> 0x30 \<le> byte c \<and> byte c \<le> 0x39"

definition hexValue :: "char \<Rightarrow> nat option" where
  "hexValue c =
     (if isDigit c then Some (byte c - 0x30)
      else if inRange 0x61 0x66 c then Some (byte c - 0x61 + 10)
      else if inRange 0x41 0x46 c then Some (byte c - 0x41 + 10)
      else None)"

text \<open>The code unit of an escape \<^verbatim>\<open>\uXXXX\<close> at the start of a string, if there is one.\<close>

definition getu4 :: "string \<Rightarrow> nat option" where
  "getu4 s =
     (case s of
        b # u # h1 # h2 # h3 # h4 # _ \<Rightarrow>
          if b = CHR 0x5C \<and> u = CHR ''u'' then
            (case (hexValue h1, hexValue h2, hexValue h3, hexValue h4) of
               (Some a, Some b, Some c, Some d) \<Rightarrow> Some (((a * 16 + b) * 16 + c) * 16 + d)
             | _ \<Rightarrow> None)
          else None
      | _ \<Rightarrow> None)"

definition replacementChar :: string where
  "replacementChar = [CHR 0xEF, CHR 0xBF, CHR 0xBD]"

text \<open>\<^verbatim>\<open>utf8.EncodeRune\<close>: the UTF-8 bytes of a code point, those of U+FFFD for a surrogate
  or a value above U+10FFFF.\<close>

definition encodeRune :: "nat \<Rightarrow> string" where
  "encodeRune r =
     (if r < 0x80 then [char_of r]
      else if r < 0x800 then [char_of (0xC0 + r div 64), char_of (0x80 + r mod 64)]
      else if (0xD800 \<le> r \<and> r \<le> 0xDFFF) \<or> 0x10FFFF < r then replacementChar
      else if r < 0x10000 then
        [char_of (0xE0 + r div 4096), char_of (0x80 + r div 64 mod 64),
         char_of (0x80 + r mod 64)]
      else
        [char_of (0xF0 + r div 262144), char_of (0x80 + r div 4096 mod 64),
         char_of (0x80 + r div 64 mod 64), char_of (0x80 + r mod 64)])"

definition isSurrogate :: "nat \<Rightarrow> bool" where
  "isSurrogate r \<longleftrightarrow> 0xD800 \<le> r \<and> r < 0xE000"

text \<open>\<^verbatim>\<open>utf16.DecodeRune\<close> on a first code unit and what follows it.\<close>

definition decodeSurrogates :: "nat \<Rightarrow> nat option \<Rightarrow> nat option" where
  "decodeSurrogates r1 next =
     (case next of
        None \<Rightarrow> None
      | Some r2 \<Rightarrow>
          if 0xD800 \<le> r1 \<and> r1 < 0xDC00 \<and> 0xDC00 \<le> r2 \<and> r2 < 0xE000
          then Some ((r1 - 0xD800) * 1024 + (r2 - 0xDC00) + 0x10000)
          else None)"

definition prepend :: "string \<Rightarrow> (string \<times> string) option \<Rightarrow> (string \<times> string) option" where
  "prepend p res = (case res of None \<Rightarrow> None | Some (s, rest) \<Rightarrow> Some (p @ s, rest))"

definition unescape :: "char \<Rightarrow> string option" where
  "unescape e =
     (if e = CHR 0x22 \<or> e = CHR 0x5C \<or> e = CHR ''/'' then Some [e]
      else if e = CHR ''b'' then Some [CHR 0x08]
      else if e = CHR ''f'' then Some [CHR 0x0C]
      else if e = CHR ''n'' then Some [CHR 0x0A]
      else if e = CHR ''r'' then Some [CHR 0x0D]
      else if e = CHR ''t'' then Some [CHR 0x09]
      else None)"

text \<open>
  One step through the body of a string literal: the closing quote ends it; a control
  character or a malformed escape is a syntax error; otherwise some bytes are produced and
  the reading goes on. An escaped surrogate pair gives its code point, an escaped lone
  surrogate and a byte that begins no well-formed UTF-8 sequence give U+FFFD.
\<close>

datatype step = Fail | End string | Emit string string

definition escapeStep :: "string \<Rightarrow> step" where
  "escapeStep s =
     (case s of
        b # e # r \<Rightarrow>
          if e = CHR ''u'' then
            (case getu4 s of
               None \<Rightarrow> Fail
             | Some rr \<Rightarrow>
                 if isSurrogate rr then
                   (case decodeSurrogates rr (getu4 (drop 6 s)) of
                      Some dec \<Rightarrow> Emit (encodeRune dec) (drop 12 s)
                    | None \<Rightarrow> Emit replacementChar (drop 6 s))
                 else Emit (encodeRune rr) (drop 6 s))
          else
            (case unescape e of
               None \<Rightarrow> Fail
             | Some p \<Rightarrow> Emit p r)
      | _ \<Rightarrow> Fail)"

definition stringStep :: "string \<Rightarrow> step" where
  "stringStep s =
     (case s of
        [] \<Rightarrow> Fail
      | c # cs \<Rightarrow>
          if c = CHR 0x22 then End cs
          else if byte c < 0x20 then Fail
          else if c = CHR 0x5C then escapeStep s
          else if byte c < 0x80 then Emit [c] cs
          else if runeSize s = 1 then Emit replacementChar cs
          else Emit (take (runeSize s) s) (drop (runeSize s) s))"

lemma runeSize_pos: "s \<noteq> [] \<Longrightarrow> 0 < runeSize s"
  by (cases s) (auto simp: runeSize.simps split: list.splits)

lemma escapeStep_shorter: "escapeStep s = Emit p s' \<Longrightarrow> length s' < length s"
  by (auto simp: escapeStep_def split: list.splits if_splits option.splits)

lemma stringStep_shorter:
  assumes "stringStep s = Emit p s'"
  shows "length s' < length s"
proof (cases s)
  case Nil
  with assms show ?thesis by (simp add: stringStep_def)
next
  case (Cons c cs)
  then have "s \<noteq> []" by simp
  then have "0 < runeSize s" by (rule runeSize_pos)
  then have "length (drop (runeSize s) s) < length s" using Cons by simp
  then show ?thesis
    using assms Cons escapeStep_shorter [of s p s']
    by (auto simp: stringStep_def split: if_splits)
qed

text \<open>The string of a literal, read from after its opening quote, and the text after it.\<close>

function parseString :: "string \<Rightarrow> (string \<times> string) option" where
  "parseString s =
     (case stringStep s of
        Fail \<Rightarrow> None
      | End rest \<Rightarrow> Some ([], rest)
      | Emit p s' \<Rightarrow> prepend p (parseString s'))"
  by pat_completeness auto
termination
  by (relation "measure length") (auto dest: stringStep_shorter)

declare parseString.simps [simp del]

text \<open>A number literal: an optional minus sign, an integer part without a leading zero,
  an optional fraction, an optional exponent.\<close>

definition scanDigits :: "string \<Rightarrow> (string \<times> string) option" where
  "scanDigits s =
     (if takeWhile isDigit s = [] then None
      else Some (takeWhile isDigit s, dropWhile isDigit s))"

definition scanInt :: "string \<Rightarrow> (string \<times> string) option" where
  "scanInt s =
     (case s of
        [] \<Rightarrow> None
      | c # r \<Rightarrow> if c = CHR ''0'' then Some ([c], r) else scanDigits s)"

definition scanFrac :: "string \<Rightarrow> (string \<times> string) option" where
  "scanFrac s =
     (case s of
        [] \<Rightarrow> Some ([], s)
      | c # r \<Rightarrow> if c = CHR ''.'' then prepend [c] (scanDigits r) else Some ([], s))"

definition scanExp :: "string \<Rightarrow> (string \<times> string) option" where
  "scanExp s =
     (case s of
        [] \<Rightarrow> Some ([], s)
      | c # r \<Rightarrow>
          if c = CHR ''e'' \<or> c = CHR ''E'' then
            (case r of
               [] \<Rightarrow> None
             | g # r' \<Rightarrow>
                 if g = CHR ''+'' \<or> g = CHR ''-'' then prepend [c, g] (scanDigits r')
                 else prepend [c] (scanDigits r))
          else Some ([], s))"

definition scanNumber :: "string \<Rightarrow> (string \<times> string) option" where
  "scanNumber s =
     (case s of
        [] \<Rightarrow> None
      | c # r \<Rightarrow>
          (case (if c = CHR ''-'' then prepend [c] (scanInt r) else scanInt s) of
             None \<Rightarrow> None
           | Some (i, r1) \<Rightarrow>
               (case scanFrac r1 of
                  None \<Rightarrow> None
                | Some (f, r2) \<Rightarrow> prepend (i @ f) (scanExp r2))))"

definition scanLiteral :: "string \<Rightarrow> json \<Rightarrow> string \<Rightarrow> (json \<times> string) option" where
  "scanLiteral lit v s =
     (if take (length lit) s = lit then Some (v, drop (length lit) s) else None)"

text \<open>
  Values. The reader of encoding/json is a loop over the input with a stack; here the
  nesting is bounded by a counter, and \<open>Unmarshal\<close> below starts it at the length of the
  input, which no document exhausts. \<open>parseElems\<close> reads the elements of an array up to its
  closing bracket and \<open>parseMembers\<close> the members of an object, each with the reader \<open>pv\<close>
  for the values inside.
\<close>

definition consElem :: "'a \<Rightarrow> ('a list \<times> string) option \<Rightarrow> ('a list \<times> string) option" where
  "consElem v res = (case res of None \<Rightarrow> None | Some (vs, rest) \<Rightarrow> Some (v # vs, rest))"

primrec parseElems ::
  "(string \<Rightarrow> (json \<times> string) option) \<Rightarrow> nat \<Rightarrow> string \<Rightarrow> (json list \<times> string) option" where
  "parseElems pv 0 s = None"
| "parseElems pv (Suc m) s =
     (case pv s of
        None \<Rightarrow> None
      | Some (v, r) \<Rightarrow>
          (case skipSpace r of
             [] \<Rightarrow> None
           | c # r' \<Rightarrow>
               if c = CHR '','' then consElem v (parseElems pv m r')
               else if c = CHR '']'' then Some ([v], r')
               else None))"

definition parseKey :: "string \<Rightarrow> (string \<times> string) option" where
  "parseKey s =
     (case skipSpace s of
        [] \<Rightarrow> None
      | q # r0 \<Rightarrow>
          if q \<noteq> CHR 0x22 then None
          else
            (case parseString r0 of
               None \<Rightarrow> None
             | Some (k, r1) \<Rightarrow>
                 (case skipSpace r1 of
                    [] \<Rightarrow> None
                  | c # r2 \<Rightarrow> if c = CHR '':'' then Some (k, r2) else None)))"

primrec parseMembers ::
  "(string \<Rightarrow> (json \<times> string) option) \<Rightarrow> nat \<Rightarrow> string \<Rightarrow>
     ((string \<times> json) list \<times> string) option" where
  "parseMembers pv 0 s = None"
| "parseMembers pv (Suc m) s =
     (case parseKey s of
        None \<Rightarrow> None
      | Some (k, r2) \<Rightarrow>
          (case pv r2 of
             None \<Rightarrow> None
           | Some (v, r3) \<Rightarrow>
               (case skipSpace r3 of
                  [] \<Rightarrow> None
                | c # r4 \<Rightarrow>
                    if c = CHR '','' then consElem (k, v) (parseMembers pv m r4)
                    else if c = CHR ''}'' then Some ([(k, v)], r4)
                    else None)))"

definition isEmptyBracket :: "char \<Rightarrow> string \<Rightarrow> bool" where
  "isEmptyBracket close r \<longleftrightarrow> (case skipSpace r of [] \<Rightarrow> False | c # _ \<Rightarrow> c = close)"

definition wrap :: "('a \<Rightarrow> json) \<Rightarrow> ('a \<times> string) option \<Rightarrow> (json \<times> string) option" where
  "wrap f res = (case res of None \<Rightarrow> None | Some (x, rest) \<Rightarrow> Some (f x, rest))"

primrec parseValue :: "nat \<Rightarrow> string \<Rightarrow> (json \<times> string) option" where
  "parseValue 0 s = None"
| "parseValue (Suc n) s =
     (case skipSpace s of
        [] \<Rightarrow> None
      | c # r \<Rightarrow>
          if c = CHR ''{'' then
            (if isEmptyBracket (CHR ''}'') r then Some (JObject [], tl (skipSpace r))
             else wrap JObject (parseMembers (parseValue n) n r))
          else if c = CHR ''['' then
            (if isEmptyBracket (CHR '']'') r then Some (JArray [], tl (skipSpace r))
             else wrap JArray (parseElems (parseValue n) n r))
          else if c = CHR 0x22 then wrap JString (parseString r)
          else if c = CHR ''t'' then scanLiteral ''true'' (JBool True) (c # r)
          else if c = CHR ''f'' then scanLiteral ''false'' (JBool False) (c # r)
          else if c = CHR ''n'' then scanLiteral ''null'' JNull (c # r)
          else wrap JNumber (scanNumber (c # r)))"

subsection \<open>Storing values into a report\<close>

text \<open>
  A number is stored into an \<^verbatim>\<open>int\<close> field when it is written as an integer and fits 64
  bits. \<^verbatim>\<open>null\<close> leaves an integer, a string or a struct as it is and makes a slice nil.
  A value of another JSON type than the field's is an error.
\<close>

definition digitsValue :: "string \<Rightarrow> nat" where
  "digitsValue ds = foldl (\<lambda>n c. 10 * n + (byte c - 0x30)) 0 ds"

definition goInt :: "int \<Rightarrow> bool" where
  "goInt i \<longleftrightarrow> - (2 ^ 63) \<le> i \<and> i < 2 ^ 63"

definition parseInt :: "string \<Rightarrow> int option" where
  "parseInt lit =
     (let neg = (lit \<noteq> [] \<and> hd lit = CHR ''-'');
          ds = (if neg then tl lit else lit);
          v = (if neg then - int (digitsValue ds) else int (digitsValue ds))
      in if ds \<noteq> [] \<and> list_all isDigit ds \<and> goInt v then Some v else None)"

text \<open>
  The name of a member selects the field whose \<^verbatim>\<open>json\<close> name it equals up to case:
  ASCII letters are folded to upper case, and so are the two characters outside ASCII of
  which an ASCII letter is the upper case, the Kelvin sign and the long s. A member that
  selects no field is skipped.
\<close>

definition foldByte :: "char \<Rightarrow> char" where
  "foldByte c = (if inRange 0x61 0x7A c then char_of (byte c - 0x20) else c)"

fun foldName :: "string \<Rightarrow> string" where
  "foldName [] = []"
| "foldName (c # cs) =
     (if take 3 (c # cs) = [CHR 0xE2, CHR 0x84, CHR 0xAA] then CHR ''K'' # foldName (drop 2 cs)
      else if take 2 (c # cs) = [CHR 0xC5, CHR 0xBF] then CHR ''S'' # foldName (drop 1 cs)
      else foldByte c # foldName cs)"

declare foldName.simps [simp del]

definition fieldIs :: "string \<Rightarrow> string \<Rightarrow> bool" where
  "fieldIs name k \<longleftrightarrow> foldName k = foldName name"

text \<open>The members of an object are stored one after the other into the same struct.\<close>

fun decodeMembers :: "('m \<Rightarrow> 'a \<Rightarrow> error + 'a) \<Rightarrow> 'm list \<Rightarrow> 'a \<Rightarrow> error + 'a" where
  "decodeMembers f [] cur = Inr cur"
| "decodeMembers f (m # ms) cur =
     (case f m cur of Inl e \<Rightarrow> Inl e | Inr cur' \<Rightarrow> decodeMembers f ms cur')"

fun decodeInt :: "json \<Rightarrow> int \<Rightarrow> error + int" where
  "decodeInt JNull cur = Inr cur"
| "decodeInt (JNumber lit) cur =
     (case parseInt lit of None \<Rightarrow> Inl UnmarshalTypeError | Some i \<Rightarrow> Inr i)"
| "decodeInt _ cur = Inl UnmarshalTypeError"

fun decodeString :: "json \<Rightarrow> string \<Rightarrow> error + string" where
  "decodeString JNull cur = Inr cur"
| "decodeString (JString s) cur = Inr s"
| "decodeString _ cur = Inl UnmarshalTypeError"

definition setField :: "error + 'v \<Rightarrow> ('v \<Rightarrow> 'a) \<Rightarrow> error + 'a" where
  "setField res upd = (case res of Inl e \<Rightarrow> Inl e | Inr v \<Rightarrow> Inr (upd v))"

definition decodeSummaryMember ::
  "string \<times> json \<Rightarrow> ReportSummary \<Rightarrow> error + ReportSummary" where
  "decodeSummaryMember m cur =
     (if fieldIs ''scanned'' (fst m) then
        setField (decodeInt (snd m) (Scanned cur)) (\<lambda>i. cur\<lparr>Scanned := i\<rparr>)
      else if fieldIs ''newResources'' (fst m) then
        setField (decodeInt (snd m) (NewResources cur)) (\<lambda>i. cur\<lparr>NewResources := i\<rparr>)
      else if fieldIs ''updatedResources'' (fst m) then
        setField (decodeInt (snd m) (UpdatedResources cur))
          (\<lambda>i. cur\<lparr>UpdatedResources := i\<rparr>)
      else Inr cur)"

fun decodeSummary :: "json \<Rightarrow> ReportSummary \<Rightarrow> error + ReportSummary" where
  "decodeSummary JNull cur = Inr cur"
| "decodeSummary (JObject ms) cur = decodeMembers decodeSummaryMember ms cur"
| "decodeSummary _ cur = Inl UnmarshalTypeError"

definition decodeTagRecordMember :: "string \<times> json \<Rightarrow> TagRecord \<Rightarrow> error + TagRecord" where
  "decodeTagRecordMember m cur =
     (if fieldIs ''file'' (fst m) then
        setField (decodeString (snd m) (File cur)) (\<lambda>s. cur\<lparr>File := s\<rparr>)
      else if fieldIs ''resourceId'' (fst m) then
        setField (decodeString (snd m) (ResourceID cur)) (\<lambda>s. cur\<lparr>ResourceID := s\<rparr>)
      else if fieldIs ''key'' (fst m) then
        setField (decodeString (snd m) (TagKey cur)) (\<lambda>s. cur\<lparr>TagKey := s\<rparr>)
      else if fieldIs ''oldValue'' (fst m) then
        setField (decodeString (snd m) (OldValue cur)) (\<lambda>s. cur\<lparr>OldValue := s\<rparr>)
      else if fieldIs ''updatedValue'' (fst m) then
        setField (decodeString (snd m) (UpdatedValue cur)) (\<lambda>s. cur\<lparr>UpdatedValue := s\<rparr>)
      else if fieldIs ''yorTraceId'' (fst m) then
        setField (decodeString (snd m) (YorTraceID cur)) (\<lambda>s. cur\<lparr>YorTraceID := s\<rparr>)
      else Inr cur)"

fun decodeTagRecord :: "json \<Rightarrow> TagRecord \<Rightarrow> error + TagRecord" where
  "decodeTagRecord JNull cur = Inr cur"
| "decodeTagRecord (JObject ms) cur = decodeMembers decodeTagRecordMember ms cur"
| "decodeTagRecord _ cur = Inl UnmarshalTypeError"

definition zeroTagRecord :: TagRecord where
  "zeroTagRecord =
     \<lparr>File = [], ResourceID = [], TagKey = [], OldValue = [], UpdatedValue = [],
      YorTraceID = []\<rparr>"

text \<open>
  The elements of an array are stored into the elements the slice has, as far as it has
  them, and into zero records beyond; the slice ends up with the length of the array.
\<close>

fun decodeElems :: "json list \<Rightarrow> TagRecord list \<Rightarrow> error + TagRecord list" where
  "decodeElems [] cur = Inr []"
| "decodeElems (v # vs) cur =
     (case decodeTagRecord v (case cur of [] \<Rightarrow> zeroTagRecord | t # _ \<Rightarrow> t) of
        Inl e \<Rightarrow> Inl e
      | Inr t \<Rightarrow>
          (case decodeElems vs (tl cur) of
             Inl e \<Rightarrow> Inl e
           | Inr ts \<Rightarrow> Inr (t # ts)))"

fun decodeTagRecords :: "json \<Rightarrow> TagRecord list option \<Rightarrow> error + TagRecord list option" where
  "decodeTagRecords JNull cur = Inr None"
| "decodeTagRecords (JArray vs) cur = setField (decodeElems vs (elems cur)) Some"
| "decodeTagRecords _ cur = Inl UnmarshalTypeError"

definition decodeReportMember :: "string \<times> json \<Rightarrow> Report \<Rightarrow> error + Report" where
  "decodeReportMember m cur =
     (if fieldIs ''summary'' (fst m) then
        setField (decodeSummary (snd m) (Summary cur)) (\<lambda>s. cur\<lparr>Summary := s\<rparr>)
      else if fieldIs ''newResourceTags'' (fst m) then
        setField (decodeTagRecords (snd m) (NewResourceTags cur))
          (\<lambda>ts. cur\<lparr>NewResourceTags := ts\<rparr>)
      else if fieldIs ''updatedResourceTags'' (fst m) then
        setField (decodeTagRecords (snd m) (UpdatedResourceTags cur))
          (\<lambda>ts. cur\<lparr>UpdatedResourceTags := ts\<rparr>)
      else Inr cur)"

fun decodeReport :: "json \<Rightarrow> Report \<Rightarrow> error + Report" where
  "decodeReport JNull cur = Inr cur"
| "decodeReport (JObject ms) cur = decodeMembers decodeReportMember ms cur"
| "decodeReport _ cur = Inl UnmarshalTypeError"

definition zeroReport :: Report where
  "zeroReport =
     \<lparr>Summary = \<lparr>Scanned = 0, NewResources = 0, UpdatedResources = 0\<rparr>,
      NewResourceTags = None, UpdatedResourceTags = None\<rparr>"

text \<open>
  \<^verbatim>\<open>json.Unmarshal(data, &r)\<close> for a new \<^verbatim>\<open>var r Report\<close>: the input is checked to be one
  JSON value, with nothing but white space around it, before anything is stored.
\<close>

definition Unmarshal :: "string \<Rightarrow> error + Report" where
  "Unmarshal data =
     (case parseValue (length data) data of
        None \<Rightarrow> Inl SyntaxError
      | Some (v, rest) \<Rightarrow>
          if skipSpace rest = [] then decodeReport v zeroReport else Inl SyntaxError)"

text \<open>Serializing a report with \<^verbatim>\<open>AsJSONBytes\<close> and reading the document back.\<close>

definition roundTrip :: "Report \<Rightarrow> error + Report" where
  "roundTrip r = (case AsJSONBytes r of Inl e \<Rightarrow> Inl e | Inr jr \<Rightarrow> Unmarshal jr)"

subsection \<open>Well-formed strings\<close>

text \<open>
  \<^verbatim>\<open>utf8.ValidString\<close>, and the string in which every byte that begins no well-formed
  UTF-8 sequence is replaced by the three bytes of U+FFFD.
\<close>

function validUTF8 :: "string \<Rightarrow> bool" where
  "validUTF8 [] = True"
| "validUTF8 (b # bs) =
     (if byte b < 0x80 then validUTF8 bs
      else runeSize (b # bs) \<noteq> 1 \<and> validUTF8 (drop (runeSize (b # bs) - 1) bs))"
  by pat_completeness auto
termination
  by (relation "measure length") auto

function coerceUTF8 :: "string \<Rightarrow> string" where
  "coerceUTF8 [] = []"
| "coerceUTF8 (b # bs) =
     (if byte b < 0x80 then b # coerceUTF8 bs
      else if runeSize (b # bs) = 1 then replacementChar @ coerceUTF8 bs
      else take (runeSize (b # bs)) (b # bs) @ coerceUTF8 (drop (runeSize (b # bs) - 1) bs))"
  by pat_completeness auto
termination
  by (relation "measure length") auto

declare validUTF8.simps [simp del] coerceUTF8.simps [simp del]

definition validTagRecord :: "TagRecord \<Rightarrow> bool" where
  "validTagRecord t \<longleftrightarrow>
     validUTF8 (File t) \<and> validUTF8 (ResourceID t) \<and> validUTF8 (TagKey t) \<and>
     validUTF8 (OldValue t) \<and> validUTF8 (UpdatedValue t) \<and> validUTF8 (YorTraceID t)"

definition validReport :: "Report \<Rightarrow> bool" where
  "validReport r \<longleftrightarrow>
     list_all validTagRecord (elems (NewResourceTags r)) \<and>
     list_all validTagRecord (elems (UpdatedResourceTags r))"

definition coerceTagRecord :: "TagRecord \<Rightarrow> TagRecord" where
  "coerceTagRecord t =
     \<lparr>File = coerceUTF8 (File t), ResourceID = coerceUTF8 (ResourceID t),
      TagKey = coerceUTF8 (TagKey t), OldValue = coerceUTF8 (OldValue t),
      UpdatedValue = coerceUTF8 (UpdatedValue t), YorTraceID = coerceUTF8 (YorTraceID t)\<rparr>"

definition coerceReport :: "Report \<Rightarrow> Report" where
  "coerceReport r =
     \<lparr>Summary = Summary r,
      NewResourceTags = map_option (map coerceTagRecord) (NewResourceTags r),
      UpdatedResourceTags = map_option (map coerceTagRecord) (UpdatedResourceTags r)\<rparr>"

text \<open>The counters of a report are Go \<^verbatim>\<open>int\<close>s: 64-bit values.\<close>

definition goInts :: "Report \<Rightarrow> bool" where
  "goInts r \<longleftrightarrow>
     goInt (Scanned (Summary r)) \<and> goInt (NewResources (Summary r)) \<and>
     goInt (UpdatedResources (Summary r))"

text \<open>The JSON value that the document of a Go value denotes, and the nesting it has.\<close>

fun jsonOf :: "go_value \<Rightarrow> json" where
  "jsonOf (GoInt i) = JNumber (formatInt i)"
| "jsonOf (GoString s) = JString (coerceUTF8 s)"
| "jsonOf GoNil = JNull"
| "jsonOf GoChan = JNull"
| "jsonOf (GoSlice vs) = JArray (map jsonOf vs)"
| "jsonOf (GoStruct fs) = JObject (map (\<lambda>f. (coerceUTF8 (fst f), jsonOf (snd f))) fs)"

fun nesting :: "go_value \<Rightarrow> nat" where
  "nesting (GoSlice vs) = Suc (max (length vs) (foldr max (map nesting vs) 0))"
| "nesting (GoStruct fs) =
     Suc (max (length fs) (foldr max (map (\<lambda>f. nesting (snd f)) fs) 0))"
| "nesting v = 1"

text \<open>Text after which a number literal ends, and a character with which a value can
  start.\<close>

definition numEnd :: "string \<Rightarrow> bool" where
  "numEnd rest \<longleftrightarrow>
     (case rest of [] \<Rightarrow> True
      | c # _ \<Rightarrow> \<not> isDigit c \<and> c \<noteq> CHR ''.'' \<and> c \<noteq> CHR ''e'' \<and> c \<noteq> CHR ''E'')"

definition valueStart :: "char \<Rightarrow> bool" where
  "valueStart c \<longleftrightarrow> \<not> isSpace c \<and> c \<noteq> CHR '']'' \<and> c \<noteq> CHR ''}''"

subsection \<open>Concrete states\<close>

text \<open>
  The state after package initialisation (\<^verbatim>\<open>ReportServiceInst = &ReportService{}\<close>, the
  zero report with nil slices) for a given accumulator, with no file and no warning yet.
\<close>

definition initial_world :: "TagChangeAccumulator \<Rightarrow> world" where
  "initial_world acc =
     \<lparr>TagChangeAccumulatorInstance = acc,
      ReportServiceInst =
        \<lparr>report = \<lparr>Summary = \<lparr>Scanned = 0, NewResources = 0, UpdatedResources = 0\<rparr>,
                    NewResourceTags = None, UpdatedResourceTags = None\<rparr>\<rparr>,
      heap = [], files = Map.empty, unwritable = Map.empty, warnings = []\<rparr>"

text \<open>Two newly traced blocks of two files that carry the same resource identifier.\<close>

definition same_id_accumulator :: TagChangeAccumulator where
  "same_id_accumulator =
     (let b1 = \<lparr>GetFilePath = ''a/main.tf'', GetResourceID = ''aws_s3_bucket.data'',
                GetTraceID = ''t1'', GetNewTags = [\<lparr>GetKey = ''env'', GetValue = ''prod''\<rparr>],
                TagsDiff = \<lparr>Added = [], Updated = []\<rparr>\<rparr>;
          b2 = \<lparr>GetFilePath = ''b/main.tf'', GetResourceID = ''aws_s3_bucket.data'',
                GetTraceID = ''t2'', GetNewTags = [\<lparr>GetKey = ''env'', GetValue = ''dev''\<rparr>],
                TagsDiff = \<lparr>Added = [], Updated = []\<rparr>\<rparr>
      in \<lparr>ScannedBlocks = [b1, b2], NewBlockTraces = [b1, b2], UpdatedBlockTraces = []\<rparr>)"

text \<open>One newly traced block that carries no tag.\<close>

definition untagged_accumulator :: TagChangeAccumulator where
  "untagged_accumulator =
     (let b = \<lparr>GetFilePath = ''main.tf'', GetResourceID = ''aws_s3_bucket.data'',
               GetTraceID = ''t1'', GetNewTags = [], TagsDiff = \<lparr>Added = [], Updated = []\<rparr>\<rparr>
      in \<lparr>ScannedBlocks = [b], NewBlockTraces = [b], UpdatedBlockTraces = []\<rparr>)"

text \<open>One newly traced block with two tags and one updated block with two changes.\<close>

definition sample_accumulator :: TagChangeAccumulator where
  "sample_accumulator =
     (let b1 = \<lparr>GetFilePath = ''main.tf'', GetResourceID = ''aws_s3_bucket.logs'',
                GetTraceID = ''t1'',
                GetNewTags = [\<lparr>GetKey = ''yor_trace'', GetValue = ''t1''\<rparr>,
                              \<lparr>GetKey = ''env'', GetValue = ''prod''\<rparr>],
                TagsDiff = \<lparr>Added = [], Updated = []\<rparr>\<rparr>;
          b2 = \<lparr>GetFilePath = ''main.tf'', GetResourceID = ''aws_s3_bucket.data'',
                GetTraceID = ''t2'', GetNewTags = [],
                TagsDiff = \<lparr>Added = [\<lparr>GetKey = ''env'', GetValue = ''prod''\<rparr>],
                            Updated = [\<lparr>Key = ''owner'', PrevValue = ''alice'', NewValue = ''bob''\<rparr>]\<rparr>\<rparr>
      in \<lparr>ScannedBlocks = [b1, b2], NewBlockTraces = [b1], UpdatedBlockTraces = [b2]\<rparr>)"

text \<open>A report with one record whose file name is the single byte 0xFF, which is not
  UTF-8, and what reading its document back gives.\<close>

definition invalid_byte_report :: Report where
  "invalid_byte_report =
     \<lparr>Summary = \<lparr>Scanned = 1, NewResources = 1, UpdatedResources = 0\<rparr>,
      NewResourceTags =
        Some [\<lparr>File = [CHR 0xFF], ResourceID = ''aws_s3_bucket.data'', TagKey = ''env'',
               OldValue = [], UpdatedValue = ''prod'', YorTraceID = ''t1''\<rparr>],
      UpdatedResourceTags = Some []\<rparr>"

definition replaced_byte_report :: Report where
  "replaced_byte_report =
     \<lparr>Summary = \<lparr>Scanned = 1, NewResources = 1, UpdatedResources = 0\<rparr>,
      NewResourceTags =
        Some [\<lparr>File = [CHR 0xEF, CHR 0xBF, CHR 0xBD], ResourceID = ''aws_s3_bucket.data'',
               TagKey = ''env'', OldValue = [], UpdatedValue = ''prod'',
               YorTraceID = ''t1''\<rparr>],
      UpdatedResourceTags = Some []\<rparr>"

text \<open>The report built from the sample accumulator.\<close>

definition sample_report :: Report where
  "sample_report = GetReport (CreateReport (initial_world sample_accumulator))"

section \<open>The report that CreateReport builds\<close>

lemma fold_appendNewResourceTag:
  "NewResourceTags rep = Some xs \<Longrightarrow>
   fold (\<lambda>t. appendNewResourceTag (f t)) ts rep =
     rep\<lparr>NewResourceTags := Some (xs @ map f ts)\<rparr>"
  by (induction ts arbitrary: rep xs) (simp_all add: appendNewResourceTag_def)

lemma fold_appendUpdatedResourceTag:
  "UpdatedResourceTags rep = Some xs \<Longrightarrow>
   fold (\<lambda>t. appendUpdatedResourceTag (f t)) ts rep =
     rep\<lparr>UpdatedResourceTags := Some (xs @ map f ts)\<rparr>"
  by (induction ts arbitrary: rep xs) (simp_all add: appendUpdatedResourceTag_def)

lemma newBlockStep_eq:
  "NewResourceTags rep = Some xs \<Longrightarrow>
   newBlockStep b rep = rep\<lparr>NewResourceTags := Some (xs @ newRecords b)\<rparr>"
  by (simp add: newBlockStep_def newRecords_def fold_appendNewResourceTag)

lemma fold_newBlockStep:
  "NewResourceTags rep = Some xs \<Longrightarrow>
   fold newBlockStep bs rep =
     rep\<lparr>NewResourceTags := Some (xs @ concat (map newRecords bs))\<rparr>"
  by (induction bs arbitrary: rep xs) (simp_all add: newBlockStep_eq)

lemma updatedBlockStep_eq:
  "UpdatedResourceTags rep = Some xs \<Longrightarrow>
   updatedBlockStep b (rep, h) =
     (rep\<lparr>UpdatedResourceTags := Some (xs @ addedRecords b @ updatedRecords b)\<rparr>,
      h @ [sortedDiff b])"
  by (simp add: updatedBlockStep_def CalculateTagsDiff_def sortAdded_def sortUpdated_def
      fold_appendUpdatedResourceTag addedRecords_def updatedRecords_def sortedDiff_def)

lemma fold_updatedBlockStep:
  "UpdatedResourceTags rep = Some xs \<Longrightarrow>
   fold updatedBlockStep bs (rep, h) =
     (rep\<lparr>UpdatedResourceTags :=
         Some (xs @ concat (map (\<lambda>b. addedRecords b @ updatedRecords b) bs))\<rparr>,
      h @ map sortedDiff bs)"
  by (induction bs arbitrary: rep xs h) (simp_all add: updatedBlockStep_eq)

text \<open>
  The state after \<^verbatim>\<open>CreateReport\<close>: every field of the stored report is written, and the
  store grows by one sorted diff per updated block.
\<close>

lemma CreateReport_eq:
  "CreateReport w =
     w\<lparr>ReportServiceInst := (ReportServiceInst w)\<lparr>report :=
          \<lparr>Summary =
             \<lparr>Scanned = int (length (ScannedBlocks (TagChangeAccumulatorInstance w))),
              NewResources = int (length (NewBlockTraces (TagChangeAccumulatorInstance w))),
              UpdatedResources =
                int (length (UpdatedBlockTraces (TagChangeAccumulatorInstance w)))\<rparr>,
           NewResourceTags =
             Some (concat (map newRecords (NewBlockTraces (TagChangeAccumulatorInstance w)))),
           UpdatedResourceTags =
             Some (concat (map (\<lambda>b. addedRecords b @ updatedRecords b)
                     (UpdatedBlockTraces (TagChangeAccumulatorInstance w))))\<rparr>\<rparr>,
       heap := heap w @ map sortedDiff (UpdatedBlockTraces (TagChangeAccumulatorInstance w))\<rparr>"
  by (simp add: CreateReport_def Let_def fold_newBlockStep fold_updatedBlockStep)

subsection \<open>Counting resources\<close>

lemma ids_concat_subset:
  assumes "\<And>b. ResourceID ` set (f b) \<subseteq> {GetResourceID b}"
  shows "ResourceID ` set (concat (map f bs)) \<subseteq> GetResourceID ` set bs"
proof
  fix x assume "x \<in> ResourceID ` set (concat (map f bs))"
  then obtain b r where b: "b \<in> set bs" and r: "r \<in> set (f b)" and x: "x = ResourceID r"
    by auto
  from r have "ResourceID r \<in> ResourceID ` set (f b)" by (rule imageI)
  with assms [of b] have "ResourceID r = GetResourceID b" by blast
  with b x show "x \<in> GetResourceID ` set bs" by simp
qed

lemma card_ids_le:
  assumes "\<And>b. ResourceID ` set (f b) \<subseteq> {GetResourceID b}"
  shows "card (ResourceID ` set (concat (map f bs))) \<le> length bs"
proof -
  have "card (ResourceID ` set (concat (map f bs))) \<le> card (GetResourceID ` set bs)"
    by (rule card_mono) (simp, rule ids_concat_subset [OF assms])
  also have "\<dots> \<le> card (set bs)" by (simp add: card_image_le)
  also have "\<dots> \<le> length bs" by (rule card_length)
  finally show ?thesis .
qed

lemma card_ids_eq:
  assumes sub: "\<And>b. ResourceID ` set (f b) \<subseteq> {GetResourceID b}"
    and ne: "\<forall>b\<in>set bs. f b \<noteq> []"
    and d: "distinct (map GetResourceID bs)"
  shows "card (ResourceID ` set (concat (map f bs))) = length bs"
proof -
  have "GetResourceID ` set bs \<subseteq> ResourceID ` set (concat (map f bs))"
  proof
    fix x assume "x \<in> GetResourceID ` set bs"
    then obtain b where b: "b \<in> set bs" and x: "x = GetResourceID b" by auto
    from ne b obtain r where r: "r \<in> set (f b)" by (cases "f b") auto
    then have "ResourceID r \<in> ResourceID ` set (f b)" by (rule imageI)
    with sub [of b] have "ResourceID r = GetResourceID b" by blast
    moreover from b r have "r \<in> set (concat (map f bs))" by auto
    ultimately show "x \<in> ResourceID ` set (concat (map f bs))" using x by force
  qed
  with ids_concat_subset [OF sub, of bs]
  have "ResourceID ` set (concat (map f bs)) = set (map GetResourceID bs)"
    by simp
  then have "card (ResourceID ` set (concat (map f bs))) = card (set (map GetResourceID bs))"
    by (rule arg_cong)
  also have "\<dots> = length (map GetResourceID bs)" using d by (rule distinct_card)
  finally show ?thesis by simp
qed

lemma sort_key_Nil_iff: "sort_key f xs = [] \<longleftrightarrow> xs = []"
proof
  assume "sort_key f xs = []"
  then have "length (sort_key f xs) = 0" by simp
  then show "xs = []" by simp
qed simp

lemma ids_newRecords: "ResourceID ` set (newRecords b) \<subseteq> {GetResourceID b}"
  by (auto simp: newRecords_def newTagRecord_def)

lemma ids_updatedBlockRecords:
  "ResourceID ` set (addedRecords b @ updatedRecords b) \<subseteq> {GetResourceID b}"
  by (auto simp: addedRecords_def updatedRecords_def addedTagRecord_def updatedTagRecord_def)

text \<open>
  C1, as the code has it: the two counters are the numbers of blocks in \<^verbatim>\<open>NewBlockTraces\<close>
  and \<^verbatim>\<open>UpdatedBlockTraces\<close>. The number of distinct resource identifiers in a record
  sequence never exceeds its counter, and equals it when the blocks of the collection have
  pairwise distinct resource identifiers and each of them contributes at least one record.
\<close>

theorem summary_counts_blocks:
  fixes w :: world
  defines "acc \<equiv> TagChangeAccumulatorInstance w"
  defines "rep \<equiv> GetReport (CreateReport w)"
  shows "NewResources (Summary rep) = int (length (NewBlockTraces acc)) \<and>
    UpdatedResources (Summary rep) = int (length (UpdatedBlockTraces acc)) \<and>
    int (card (ResourceID ` set (elems (NewResourceTags rep)))) \<le> NewResources (Summary rep) \<and>
    int (card (ResourceID ` set (elems (UpdatedResourceTags rep))))
      \<le> UpdatedResources (Summary rep) \<and>
    (distinct (map GetResourceID (NewBlockTraces acc)) \<and>
     (\<forall>b\<in>set (NewBlockTraces acc). GetNewTags b \<noteq> []) \<longrightarrow>
       NewResources (Summary rep) =
         int (card (ResourceID ` set (elems (NewResourceTags rep))))) \<and>
    (distinct (map GetResourceID (UpdatedBlockTraces acc)) \<and>
     (\<forall>b\<in>set (UpdatedBlockTraces acc).
        Added (TagsDiff b) \<noteq> [] \<or> Updated (TagsDiff b) \<noteq> []) \<longrightarrow>
       UpdatedResources (Summary rep) =
         int (card (ResourceID ` set (elems (UpdatedResourceTags rep)))))"
proof -
  have n: "elems (NewResourceTags rep) = concat (map newRecords (NewBlockTraces acc))"
    and u: "elems (UpdatedResourceTags rep) =
      concat (map (\<lambda>b. addedRecords b @ updatedRecords b) (UpdatedBlockTraces acc))"
    and sn: "NewResources (Summary rep) = int (length (NewBlockTraces acc))"
    and su: "UpdatedResources (Summary rep) = int (length (UpdatedBlockTraces acc))"
    by (simp_all add: rep_def acc_def GetReport_def CreateReport_eq)
  have le_n: "card (ResourceID ` set (elems (NewResourceTags rep)))
      \<le> length (NewBlockTraces acc)"
    unfolding n by (rule card_ids_le) (rule ids_newRecords)
  have le_u: "card (ResourceID ` set (elems (UpdatedResourceTags rep)))
      \<le> length (UpdatedBlockTraces acc)"
    unfolding u by (rule card_ids_le) (rule ids_updatedBlockRecords)
  have eq_n: "card (ResourceID ` set (elems (NewResourceTags rep)))
      = length (NewBlockTraces acc)"
    if "distinct (map GetResourceID (NewBlockTraces acc))"
      and "\<forall>b\<in>set (NewBlockTraces acc). GetNewTags b \<noteq> []"
    unfolding n using that
    by (intro card_ids_eq ids_newRecords) (simp_all add: newRecords_def)
  have eq_u: "card (ResourceID ` set (elems (UpdatedResourceTags rep)))
      = length (UpdatedBlockTraces acc)"
    if "distinct (map GetResourceID (UpdatedBlockTraces acc))"
      and "\<forall>b\<in>set (UpdatedBlockTraces acc).
             Added (TagsDiff b) \<noteq> [] \<or> Updated (TagsDiff b) \<noteq> []"
    unfolding u using that
    by (intro card_ids_eq ids_updatedBlockRecords)
      (simp_all add: addedRecords_def updatedRecords_def sort_key_Nil_iff)
  show ?thesis using sn su le_n le_u eq_n eq_u by simp
qed

theorem summary_counts_blocks_witness:
  "distinct (map GetResourceID (NewBlockTraces sample_accumulator)) \<and>
   list_all (\<lambda>b. GetNewTags b \<noteq> []) (NewBlockTraces sample_accumulator) \<and>
   distinct (map GetResourceID (UpdatedBlockTraces sample_accumulator)) \<and>
   list_all (\<lambda>b. Added (TagsDiff b) \<noteq> [] \<or> Updated (TagsDiff b) \<noteq> [])
     (UpdatedBlockTraces sample_accumulator) \<and>
   NewResources (Summary (GetReport (CreateReport (initial_world sample_accumulator)))) =
     int (card (ResourceID ` set (elems (NewResourceTags
       (GetReport (CreateReport (initial_world sample_accumulator))))))) \<and>
   UpdatedResources (Summary (GetReport (CreateReport (initial_world sample_accumulator)))) =
     int (card (ResourceID ` set (elems (UpdatedResourceTags
       (GetReport (CreateReport (initial_world sample_accumulator)))))))"
proof -
  have a: "TagChangeAccumulatorInstance (initial_world sample_accumulator) = sample_accumulator"
    by (simp add: initial_world_def)
  have h: "distinct (map GetResourceID (NewBlockTraces sample_accumulator))"
    "list_all (\<lambda>b. GetNewTags b \<noteq> []) (NewBlockTraces sample_accumulator)"
    "distinct (map GetResourceID (UpdatedBlockTraces sample_accumulator))"
    "list_all (\<lambda>b. Added (TagsDiff b) \<noteq> [] \<or> Updated (TagsDiff b) \<noteq> [])
       (UpdatedBlockTraces sample_accumulator)"
    by (simp_all add: sample_accumulator_def Let_def)
  show ?thesis
    using summary_counts_blocks [of "initial_world sample_accumulator"] h
    unfolding a by (simp add: list_all_iff)
qed

text \<open>
  C1 as stated fails: with two newly traced blocks of two files under one resource
  identifier, \<^verbatim>\<open>summary.newResources\<close> is 2 and the new-records sequence holds one
  distinct resource identifier.
\<close>

theorem summary_distinct_ids_counterexample:
  "NewResources (Summary (GetReport (CreateReport (initial_world same_id_accumulator)))) = 2 \<and>
   card (ResourceID ` set (elems (NewResourceTags
     (GetReport (CreateReport (initial_world same_id_accumulator)))))) = 1"
  by (simp add: GetReport_def CreateReport_def initial_world_def same_id_accumulator_def
      Let_def newBlockStep_def appendNewResourceTag_def newTagRecord_def)

text \<open>
  Likewise a newly traced block without tags is counted and contributes no record.
\<close>

lemma untagged_block_counted:
  "NewResources (Summary (GetReport (CreateReport (initial_world untagged_accumulator)))) = 1 \<and>
   NewResourceTags (GetReport (CreateReport (initial_world untagged_accumulator))) = Some []"
  by (simp add: GetReport_def CreateReport_def initial_world_def untagged_accumulator_def
      Let_def newBlockStep_def)

subsection \<open>Order of the records\<close>

lemma sorted_addedRecords: "sorted (map TagKey (addedRecords b))"
proof -
  have "map TagKey (addedRecords b) = map GetKey (sort_key GetKey (Added (TagsDiff b)))"
    by (simp add: addedRecords_def addedTagRecord_def comp_def)
  then show ?thesis by simp
qed

lemma sorted_updatedRecords: "sorted (map TagKey (updatedRecords b))"
proof -
  have "map TagKey (updatedRecords b) = map Key (sort_key Key (Updated (TagsDiff b)))"
    by (simp add: updatedRecords_def updatedTagRecord_def comp_def)
  then show ?thesis by simp
qed

lemma mset_addedRecords:
  "mset (addedRecords b) = image_mset (addedTagRecord b) (mset (Added (TagsDiff b)))"
  by (simp add: addedRecords_def)

lemma mset_updatedRecords:
  "mset (updatedRecords b) = image_mset (updatedTagRecord b) (mset (Updated (TagsDiff b)))"
  by (simp add: updatedRecords_def)

text \<open>
  C2: the updated-records sequence is, block after block in the accumulator's order, the
  records of the block's added tags followed by the records of its changed tags; each of
  the two groups is sorted ascending by tag key and holds exactly the records of the
  block's \<^verbatim>\<open>diff.Added\<close>, respectively \<^verbatim>\<open>diff.Updated\<close>.
\<close>

theorem updated_records_sorted_per_group:
  "UpdatedResourceTags (GetReport (CreateReport w)) =
     Some (concat (map (\<lambda>b. addedRecords b @ updatedRecords b)
             (UpdatedBlockTraces (TagChangeAccumulatorInstance w)))) \<and>
   sorted (map TagKey (addedRecords b)) \<and>
   mset (addedRecords b) = image_mset (addedTagRecord b) (mset (Added (TagsDiff b))) \<and>
   sorted (map TagKey (updatedRecords b)) \<and>
   mset (updatedRecords b) = image_mset (updatedTagRecord b) (mset (Updated (TagsDiff b)))"
proof -
  have "UpdatedResourceTags (GetReport (CreateReport w)) =
     Some (concat (map (\<lambda>b. addedRecords b @ updatedRecords b)
             (UpdatedBlockTraces (TagChangeAccumulatorInstance w))))"
    by (simp add: GetReport_def CreateReport_eq)
  moreover note sorted_addedRecords [of b] mset_addedRecords [of b]
    sorted_updatedRecords [of b] mset_updatedRecords [of b]
  ultimately show ?thesis by simp
qed

text \<open>
  C3: the new-records sequence is, block after block in the accumulator's order, one
  record per tag of the block in the order of \<^verbatim>\<open>GetNewTags\<close>, each with an empty old value
  and the tag's value as updated value.
\<close>

theorem new_records_one_per_tag_in_order:
  "NewResourceTags (GetReport (CreateReport w)) =
     Some (concat (map (\<lambda>b. map (newTagRecord b) (GetNewTags b))
             (NewBlockTraces (TagChangeAccumulatorInstance w)))) \<and>
   OldValue (newTagRecord b t) = [] \<and> UpdatedValue (newTagRecord b t) = GetValue t \<and>
   TagKey (newTagRecord b t) = GetKey t \<and> File (newTagRecord b t) = GetFilePath b \<and>
   ResourceID (newTagRecord b t) = GetResourceID b \<and>
   YorTraceID (newTagRecord b t) = GetTraceID b"
proof -
  have "NewResourceTags (GetReport (CreateReport w)) =
      Some (concat (map newRecords (NewBlockTraces (TagChangeAccumulatorInstance w))))"
    by (simp add: GetReport_def CreateReport_eq)
  moreover have "newRecords = (\<lambda>b. map (newTagRecord b) (GetNewTags b))"
    by (rule ext) (simp add: newRecords_def)
  ultimately show ?thesis by (simp add: newTagRecord_def)
qed

text \<open>
  C4: the scenario of one updated block of \<^verbatim>\<open>main.tf\<close> with one added and one changed tag,
  whatever the rest of the state is.
\<close>

theorem scenario_one_updated_block:
  "UpdatedResourceTags (GetReport (CreateReport
      (w\<lparr>TagChangeAccumulatorInstance := acc\<lparr>UpdatedBlockTraces :=
          [\<lparr>GetFilePath = ''main.tf'', GetResourceID = ''aws_s3_bucket.data'',
            GetTraceID = ''yor_trace_123'', GetNewTags = nt,
            TagsDiff =
              \<lparr>Added = [\<lparr>GetKey = ''env'', GetValue = ''prod''\<rparr>],
               Updated = [\<lparr>Key = ''owner'', PrevValue = ''alice'', NewValue = ''bob''\<rparr>]\<rparr>\<rparr>]\<rparr>\<rparr>))) =
   Some [\<lparr>File = ''main.tf'', ResourceID = ''aws_s3_bucket.data'', TagKey = ''env'',
          OldValue = '''', UpdatedValue = ''prod'', YorTraceID = ''yor_trace_123''\<rparr>,
         \<lparr>File = ''main.tf'', ResourceID = ''aws_s3_bucket.data'', TagKey = ''owner'',
          OldValue = ''alice'', UpdatedValue = ''bob'', YorTraceID = ''yor_trace_123''\<rparr>]"
  by (simp add: GetReport_def CreateReport_def updatedBlockStep_def CalculateTagsDiff_def
      sortAdded_def sortUpdated_def appendUpdatedResourceTag_def addedTagRecord_def
      updatedTagRecord_def)

subsection \<open>Rebuilding and the frame\<close>

text \<open>
  C7: a second \<^verbatim>\<open>CreateReport\<close> on the same accumulator gives the same report, and the
  report does not depend on what the report service or the store held before.
\<close>

theorem rebuild_overwrites:
  "GetReport (CreateReport (CreateReport w)) = GetReport (CreateReport w) \<and>
   GetReport (CreateReport (w\<lparr>ReportServiceInst := rs, heap := h\<rparr>)) =
     GetReport (CreateReport w)"
proof -
  have acc: "TagChangeAccumulatorInstance (CreateReport w) = TagChangeAccumulatorInstance w"
    by (simp add: CreateReport_eq)
  have "GetReport (CreateReport (CreateReport w)) = GetReport (CreateReport w)"
    by (subst (1 3) CreateReport_eq) (simp add: GetReport_def acc)
  moreover have "GetReport (CreateReport (w\<lparr>ReportServiceInst := rs, heap := h\<rparr>)) =
      GetReport (CreateReport w)"
    by (simp add: GetReport_def CreateReport_eq)
  ultimately show ?thesis by simp
qed


text \<open>
  The sorts do write through the pointer they are given: on an object that is in the
  store they replace its sequence by the sorted one. What keeps the accumulator as it was
  is that \<^verbatim>\<open>CreateReport\<close> sorts the diff objects that \<^verbatim>\<open>CalculateTagsDiff\<close> has just
  allocated, and no other.
\<close>

lemma sortAdded_in_place:
  "p < length h \<Longrightarrow>
   sortAdded p h ! p = (h ! p)\<lparr>Added := sort_key GetKey (Added (h ! p))\<rparr>"
  by (simp add: sortAdded_def)

lemma sortUpdated_in_place:
  "p < length h \<Longrightarrow>
   sortUpdated p h ! p = (h ! p)\<lparr>Updated := sort_key Key (Updated (h ! p))\<rparr>"
  by (simp add: sortUpdated_def)

lemma CalculateTagsDiff_fresh:
  "CalculateTagsDiff b h = (p, h') \<Longrightarrow> p = length h \<and> take (length h) h' = h \<and> h' ! p = TagsDiff b"
  by (auto simp: CalculateTagsDiff_def)

section \<open>The JSON document of a report\<close>

lemma supported_reflectReport: "supported (reflectReport r)"
  by (cases "NewResourceTags r"; cases "UpdatedResourceTags r")
    (simp_all add: reflectReport_def reflectSummary_def reflectTagRecords_def
      reflectTagRecord_def list_all_iff)

lemma indentValue_reflectReport_nonempty: "indentValue d (reflectReport r) \<noteq> []"
  by (simp add: reflectReport_def)

text \<open>
  C10: a report reflects to integers, strings, slices and structs only, so
  \<^verbatim>\<open>AsJSONBytes\<close> returns a document, which is not empty, and never an error.
\<close>

theorem AsJSONBytes_never_fails: "\<exists>jr. AsJSONBytes r = Inr jr \<and> jr \<noteq> []"
proof -
  have "MarshalIndent (reflectReport r) = Inr (indentValue 0 (reflectReport r))"
    by (simp add: MarshalIndent_def supported_reflectReport)
  then have "AsJSONBytes r = Inr (indentValue 0 (reflectReport r))"
    by (simp add: AsJSONBytes_def)
  with indentValue_reflectReport_nonempty [of 0 r] show ?thesis by blast
qed

text \<open>
  C5: with the three collections empty, the report has an all-zero summary and two
  empty, non-nil record sequences, and its document shows both arrays as \<^verbatim>\<open>[]\<close>.
\<close>

theorem empty_accumulator_report:
  \<open>GetReport (CreateReport (w\<lparr>TagChangeAccumulatorInstance :=
       \<lparr>ScannedBlocks = [], NewBlockTraces = [], UpdatedBlockTraces = []\<rparr>\<rparr>)) =
     \<lparr>Summary = \<lparr>Scanned = 0, NewResources = 0, UpdatedResources = 0\<rparr>,
      NewResourceTags = Some [], UpdatedResourceTags = Some []\<rparr> \<and>
   AsJSONBytes (GetReport (CreateReport (w\<lparr>TagChangeAccumulatorInstance :=
       \<lparr>ScannedBlocks = [], NewBlockTraces = [], UpdatedBlockTraces = []\<rparr>\<rparr>))) =
     Inr (''{'' @ [CHR 0x0A] @
          ''    "summary": {'' @ [CHR 0x0A] @
          ''        "scanned": 0,'' @ [CHR 0x0A] @
          ''        "newResources": 0,'' @ [CHR 0x0A] @
          ''        "updatedResources": 0'' @ [CHR 0x0A] @
          ''    },'' @ [CHR 0x0A] @
          ''    "newResourceTags": [],'' @ [CHR 0x0A] @
          ''    "updatedResourceTags": []'' @ [CHR 0x0A] @
          ''}'')\<close>
  by (simp add: GetReport_def CreateReport_def AsJSONBytes_def MarshalIndent_def
      reflectReport_def reflectSummary_def reflectTagRecords_def newline_def
      quote_def appendString.simps byte_def htmlSafe_def formatInt_def digits.simps
      digitChar_def)

text \<open>
  For contrast, the report of a service on which \<^verbatim>\<open>CreateReport\<close> never ran has nil
  slices, and its document shows them as \<^verbatim>\<open>null\<close>.
\<close>

lemma zero_report_document:
  \<open>AsJSONBytes (GetReport (initial_world acc)) =
     Inr (''{'' @ [CHR 0x0A] @
          ''    "summary": {'' @ [CHR 0x0A] @
          ''        "scanned": 0,'' @ [CHR 0x0A] @
          ''        "newResources": 0,'' @ [CHR 0x0A] @
          ''        "updatedResources": 0'' @ [CHR 0x0A] @
          ''    },'' @ [CHR 0x0A] @
          ''    "newResourceTags": null,'' @ [CHR 0x0A] @
          ''    "updatedResourceTags": null'' @ [CHR 0x0A] @
          ''}'')\<close>
  by (simp add: GetReport_def initial_world_def AsJSONBytes_def MarshalIndent_def
      reflectReport_def reflectSummary_def reflectTagRecords_def newline_def
      quote_def appendString.simps byte_def htmlSafe_def formatInt_def digits.simps
      digitChar_def)

subsection \<open>Failures while printing\<close>

lemma warnings_writeJSONResult:
  "warnings (writeJSONResult res file w) =
     warnings w
     @ (case res of Inl e \<Rightarrow> [[''Failed to create report as JSON'']] | Inr jr \<Rightarrow> [])
     @ (case unwritable w file of
          Some msg \<Rightarrow> [[''Failed to write to JSON file'', msg]]
        | None \<Rightarrow> [])"
  by (simp add: writeJSONResult_def WriteFile_def Warning_def
      split: sum.splits option.splits)

text \<open>
  C8: \<^verbatim>\<open>AsJSONBytes\<close> hands the result of the encoder, document or error, to its caller as
  it is. \<^verbatim>\<open>PrintJSONToFile\<close> continues from either result: it logs one warning when the
  serialization failed and one, with the text of the error, when the file could not be
  written, logs nothing else, and returns the state to its caller with no error.
\<close>

theorem serialization_propagates_printing_warns:
  "AsJSONBytes r = MarshalIndent (reflectReport r) \<and>
   PrintJSONToFile file w =
     writeJSONResult (AsJSONBytes (report (ReportServiceInst w))) file w \<and>
   warnings (writeJSONResult res file w) =
     warnings w
     @ (case res of Inl e \<Rightarrow> [[''Failed to create report as JSON'']] | Inr jr \<Rightarrow> [])
     @ (case unwritable w file of
          Some msg \<Rightarrow> [[''Failed to write to JSON file'', msg]]
        | None \<Rightarrow> [])"
proof -
  have "AsJSONBytes r = MarshalIndent (reflectReport r)"
    by (cases "MarshalIndent (reflectReport r)") (simp_all add: AsJSONBytes_def)
  moreover have "PrintJSONToFile file w =
      writeJSONResult (AsJSONBytes (report (ReportServiceInst w))) file w"
    by (simp add: PrintJSONToFile_def)
  moreover note warnings_writeJSONResult [of res "file" w]
  ultimately show ?thesis by simp
qed

lemma files_writeJSONResult:
  "files (writeJSONResult res file w) =
     (case unwritable w file of
        Some msg \<Rightarrow> files w
      | None \<Rightarrow> (files w)(file \<mapsto> (case res of Inl e \<Rightarrow> [] | Inr jr \<Rightarrow> jr)))"
  by (simp add: writeJSONResult_def WriteFile_def Warning_def
      split: sum.splits option.splits)

section \<open>Reading back the document of a report\<close>

subsection \<open>Numbers\<close>

lemma digitChar_table: "list_all (\<lambda>n. byte (digitChar n) = 0x30 + n) [0..<10]"
  by code_simp

lemma byte_digitChar: "n < 10 \<Longrightarrow> byte (digitChar n) = 0x30 + n"
  using digitChar_table by (simp add: list_all_iff)

lemma isDigit_digitChar: "n < 10 \<Longrightarrow> isDigit (digitChar n)"
  by (simp add: isDigit_def byte_digitChar)

lemma digits_all: "list_all isDigit (digits n)"
  by (induction n rule: digits.induct) (subst digits.simps, simp add: isDigit_digitChar)

lemma digits_nonempty: "digits n \<noteq> []"
  by (subst digits.simps) simp

lemma digitsValue_snoc: "digitsValue (ds @ [c]) = 10 * digitsValue ds + (byte c - 0x30)"
  by (simp add: digitsValue_def)

lemma digitsValue_digits: "digitsValue (digits n) = n"
proof (induction n rule: digits.induct)
  case (1 n)
  show ?case
  proof (cases "n < 10")
    case True
    then show ?thesis
      by (subst digits.simps) (simp add: digitsValue_def byte_digitChar)
  next
    case False
    with 1 have "digitsValue (digits (n div 10)) = n div 10" by simp
    with False show ?thesis
      by (subst digits.simps) (simp add: digitsValue_snoc byte_digitChar)
  qed
qed

lemma hd_digits: "0 < n \<Longrightarrow> hd (digits n) \<noteq> CHR ''0''"
proof (induction n rule: digits.induct)
  case (1 n)
  show ?case
  proof (cases "n < 10")
    case True
    with 1(2) have "byte (digitChar n) \<noteq> byte (CHR ''0'')"
      by (simp add: byte_digitChar) (simp add: byte_def)
    then have "digitChar n \<noteq> CHR ''0''" by auto
    with True show ?thesis by (subst digits.simps) simp
  next
    case False
    then have "0 < n div 10" by simp
    with 1(1) False have "hd (digits (n div 10)) \<noteq> CHR ''0''" by simp
    with False show ?thesis
      by (subst digits.simps) (simp add: digits_nonempty)
  qed
qed

lemma digits_0: "digits 0 = ''0''"
  by (subst digits.simps) (simp add: digitChar_def)

lemma takeWhile_digits:
  "list_all isDigit ds \<Longrightarrow> numEnd rest \<Longrightarrow> takeWhile isDigit (ds @ rest) = ds"
  by (cases rest) (auto simp: numEnd_def list_all_iff takeWhile_append2)

lemma dropWhile_digits:
  "list_all isDigit ds \<Longrightarrow> numEnd rest \<Longrightarrow> dropWhile isDigit (ds @ rest) = rest"
  by (cases rest) (auto simp: numEnd_def list_all_iff dropWhile_append2)

lemma scanDigits_digits:
  "ds \<noteq> [] \<Longrightarrow> list_all isDigit ds \<Longrightarrow> numEnd rest \<Longrightarrow>
   scanDigits (ds @ rest) = Some (ds, rest)"
  by (simp add: scanDigits_def takeWhile_digits dropWhile_digits)

lemma scanInt_digits:
  assumes "numEnd rest"
  shows "scanInt (digits n @ rest) = Some (digits n, rest)"
proof (cases "n = 0")
  case True
  then show ?thesis by (simp add: digits_0 scanInt_def)
next
  case False
  then have h: "hd (digits n) \<noteq> CHR ''0''" by (simp add: hd_digits)
  obtain c cs where cs: "digits n = c # cs" using digits_nonempty [of n] by (cases "digits n") auto
  with h have "c \<noteq> CHR ''0''" by simp
  then have "scanInt (digits n @ rest) = scanDigits (digits n @ rest)"
    by (simp add: scanInt_def cs)
  then show ?thesis using assms by (simp add: scanDigits_digits digits_nonempty digits_all)
qed

lemma hd_digits_not_minus: "hd (digits n) \<noteq> CHR ''-''"
proof -
  obtain c cs where cs: "digits n = c # cs" using digits_nonempty [of n] by (cases "digits n") auto
  with digits_all [of n] have "isDigit c" by simp
  then have "c \<noteq> CHR ''-''" by (auto simp: isDigit_def byte_def)
  with cs show ?thesis by simp
qed

lemma scanFrac_numEnd: "numEnd rest \<Longrightarrow> scanFrac rest = Some ([], rest)"
  by (cases rest) (auto simp: scanFrac_def numEnd_def)

lemma scanExp_numEnd: "numEnd rest \<Longrightarrow> scanExp rest = Some ([], rest)"
  by (cases rest) (auto simp: scanExp_def numEnd_def)

lemma scanNumber_formatInt:
  assumes "numEnd rest"
  shows "scanNumber (formatInt i @ rest) = Some (formatInt i, rest)"
proof (cases "i < 0")
  case True
  then show ?thesis
    using assms
    by (simp add: formatInt_def scanNumber_def scanInt_digits prepend_def scanFrac_numEnd
        scanExp_numEnd)
next
  case False
  obtain c cs where cs: "digits (nat i) = c # cs"
    using digits_nonempty [of "nat i"] by (cases "digits (nat i)") auto
  with hd_digits_not_minus [of "nat i"] have c: "c \<noteq> CHR ''-''" by simp
  have "scanNumber (digits (nat i) @ rest) =
      (case scanInt (digits (nat i) @ rest) of None \<Rightarrow> None
       | Some (i, r1) \<Rightarrow> (case scanFrac r1 of None \<Rightarrow> None
           | Some (f, r2) \<Rightarrow> prepend (i @ f) (scanExp r2)))"
    unfolding scanNumber_def cs using c by simp
  with False show ?thesis
    using assms
    by (simp add: formatInt_def scanInt_digits prepend_def scanFrac_numEnd scanExp_numEnd)
qed

lemma parseInt_formatInt: "goInt i \<Longrightarrow> parseInt (formatInt i) = Some i"
proof (cases "i < 0")
  case True
  assume "goInt i"
  with True show ?thesis
    by (simp add: parseInt_def formatInt_def digits_nonempty digits_all digitsValue_digits)
next
  case False
  assume "goInt i"
  with False hd_digits_not_minus [of "nat i"] show ?thesis
    by (simp add: parseInt_def formatInt_def digits_nonempty digits_all digitsValue_digits)
qed

lemma formatInt_nonempty: "formatInt i \<noteq> []"
  by (simp add: formatInt_def digits_nonempty)

lemma hd_formatInt:
  "hd (formatInt i) \<noteq> CHR ''{'' \<and> hd (formatInt i) \<noteq> CHR ''['' \<and> hd (formatInt i) \<noteq> CHR 0x22 \<and>
   hd (formatInt i) \<noteq> CHR ''t'' \<and> hd (formatInt i) \<noteq> CHR ''f'' \<and> hd (formatInt i) \<noteq> CHR ''n'' \<and>
   \<not> isSpace (hd (formatInt i))"
proof (cases "i < 0")
  case True
  then show ?thesis by (simp add: formatInt_def isSpace_def)
next
  case False
  obtain c cs where cs: "digits (nat i) = c # cs"
    using digits_nonempty [of "nat i"] by (cases "digits (nat i)") auto
  with digits_all [of "nat i"] have "isDigit c" by simp
  then have "c \<noteq> CHR ''{'' \<and> c \<noteq> CHR ''['' \<and> c \<noteq> CHR 0x22 \<and> c \<noteq> CHR ''t'' \<and> c \<noteq> CHR ''f''
      \<and> c \<noteq> CHR ''n'' \<and> \<not> isSpace c"
    by (auto simp: isDigit_def byte_def isSpace_def)
  with False cs show ?thesis by (simp add: formatInt_def)
qed

subsection \<open>Strings\<close>

lemma parseString_Emit: "stringStep s = Emit p s' \<Longrightarrow> parseString s = prepend p (parseString s')"
  by (subst parseString.simps) simp

lemma parseString_End: "stringStep s = End rest \<Longrightarrow> parseString s = Some ([], rest)"
  by (subst parseString.simps) simp

lemma hexDigit_table: "list_all (\<lambda>n. hexValue (hexDigit n) = Some n) [0..<16]"
  by code_simp

lemma hexValue_hexDigit: "n < 16 \<Longrightarrow> hexValue (hexDigit n) = Some n"
  using hexDigit_table by (simp add: list_all_iff)

lemma hexValue_0: "hexValue (CHR ''0'') = Some 0"
  by (simp add: hexValue_def isDigit_def byte_def)

lemma getu4_control:
  assumes "byte b < 0x80"
  shows "getu4 (CHR 0x5C # CHR ''u'' # CHR ''0'' # CHR ''0'' # hexDigit (byte b div 16)
           # hexDigit (byte b mod 16) # X) = Some (byte b)"
proof -
  from assms have "byte b div 16 < 16" by simp
  then have 1: "hexValue (hexDigit (byte b div 16)) = Some (byte b div 16)"
    by (rule hexValue_hexDigit)
  have 2: "hexValue (hexDigit (byte b mod 16)) = Some (byte b mod 16)"
    by (rule hexValue_hexDigit) simp
  show ?thesis by (simp add: getu4_def hexValue_0 1 2)
qed

lemma encodeRune_ascii: "byte b < 0x80 \<Longrightarrow> encodeRune (byte b) = [b]"
  by (simp add: encodeRune_def byte_def)

lemma encodeRune_fffd: "encodeRune 0xFFFD = replacementChar"
  by (simp add: encodeRune_def replacementChar_def char_of_eq_iff)

lemma encodeRune_2028: "encodeRune 0x2028 = [CHR 0xE2, CHR 0x80, CHR 0xA8]"
  by (simp add: encodeRune_def char_of_eq_iff)

lemma encodeRune_2029: "encodeRune 0x2029 = [CHR 0xE2, CHR 0x80, CHR 0xA9]"
  by (simp add: encodeRune_def char_of_eq_iff)

lemma step_safe: "htmlSafe b \<Longrightarrow> stringStep (b # X) = Emit [b] X"
  by (auto simp: stringStep_def htmlSafe_def)

lemma step_escaped:
  assumes "byte b < 0x80" "\<not> htmlSafe b"
  shows "stringStep (escapeByte b @ X) = Emit [b] X"
proof -
  consider "b = CHR 0x5C \<or> b = CHR 0x22" | "b = CHR 0x0A" | "b = CHR 0x0D" | "b = CHR 0x09"
    | "b \<noteq> CHR 0x5C" "b \<noteq> CHR 0x22" "b \<noteq> CHR 0x0A" "b \<noteq> CHR 0x0D" "b \<noteq> CHR 0x09"
    by blast
  then show ?thesis
  proof cases
    case 1
    then show ?thesis
      by (auto simp: escapeByte_def stringStep_def escapeStep_def unescape_def byte_def)
  next
    case 2
    then show ?thesis
      by (simp add: escapeByte_def stringStep_def escapeStep_def unescape_def byte_def)
  next
    case 3
    then show ?thesis
      by (simp add: escapeByte_def stringStep_def escapeStep_def unescape_def byte_def)
  next
    case 4
    then show ?thesis
      by (simp add: escapeByte_def stringStep_def escapeStep_def unescape_def byte_def)
  next
    case 5
    let ?s = "CHR 0x5C # CHR ''u'' # CHR ''0'' # CHR ''0'' # hexDigit (byte b div 16)
           # hexDigit (byte b mod 16) # X"
    from 5 have e: "escapeByte b @ X = ?s" by (simp add: escapeByte_def)
    have g: "getu4 ?s = Some (byte b)" using assms(1) by (rule getu4_control)
    have ns: "\<not> isSurrogate (byte b)" using assms(1) by (simp add: isSurrogate_def)
    have "escapeStep ?s = Emit [b] X"
      by (simp add: escapeStep_def g ns encodeRune_ascii [OF assms(1)])
    then show ?thesis unfolding e by (simp add: stringStep_def byte_def)
  qed
qed

lemma step_fffd:
  "stringStep (CHR 0x5C # CHR ''u'' # CHR ''f'' # CHR ''f'' # CHR ''f'' # CHR ''d'' # X)
     = Emit replacementChar X"
proof -
  have "getu4 (CHR 0x5C # CHR ''u'' # CHR ''f'' # CHR ''f'' # CHR ''f'' # CHR ''d'' # X)
      = Some 0xFFFD"
    by (simp add: getu4_def hexValue_def isDigit_def inRange_def byte_def)
  then show ?thesis
    by (simp add: stringStep_def escapeStep_def isSurrogate_def encodeRune_fffd byte_def)
qed

lemma step_2028:
  "stringStep (CHR 0x5C # CHR ''u'' # CHR ''2'' # CHR ''0'' # CHR ''2'' # CHR ''8'' # X)
     = Emit [CHR 0xE2, CHR 0x80, CHR 0xA8] X"
proof -
  have "getu4 (CHR 0x5C # CHR ''u'' # CHR ''2'' # CHR ''0'' # CHR ''2'' # CHR ''8'' # X)
      = Some 0x2028"
    by (simp add: getu4_def hexValue_def isDigit_def inRange_def byte_def)
  then show ?thesis
    by (simp add: stringStep_def escapeStep_def isSurrogate_def encodeRune_2028 byte_def)
qed

lemma step_2029:
  "stringStep (CHR 0x5C # CHR ''u'' # CHR ''2'' # CHR ''0'' # CHR ''2'' # CHR ''9'' # X)
     = Emit [CHR 0xE2, CHR 0x80, CHR 0xA9] X"
proof -
  have "getu4 (CHR 0x5C # CHR ''u'' # CHR ''2'' # CHR ''0'' # CHR ''2'' # CHR ''9'' # X)
      = Some 0x2029"
    by (simp add: getu4_def hexValue_def isDigit_def inRange_def byte_def)
  then show ?thesis
    by (simp add: stringStep_def escapeStep_def isSurrogate_def encodeRune_2029 byte_def)
qed

lemma runeSize_prefix:
  assumes "runeSize s = k" "1 < k"
  shows "k \<le> length s \<and> runeSize (take k s @ X) = k"
  using assms
  by (cases s) (auto simp: runeSize.simps split: list.splits if_splits)

lemma step_copy:
  assumes b: "\<not> byte b < 0x80" and k: "runeSize (b # bs) = k" "k \<noteq> 1"
  shows "stringStep (take k (b # bs) @ X) = Emit (take k (b # bs)) X"
proof -
  from runeSize_pos [of "b # bs"] k have k1: "1 < k" by simp
  from runeSize_prefix [OF k(1) k1, of X]
  have len: "k \<le> length (b # bs)" and rs: "runeSize (take k (b # bs) @ X) = k" by simp_all
  from k1 obtain j where j: "k = Suc j" by (cases k) auto
  have shape: "take k (b # bs) @ X = b # (take j bs @ X)" by (simp add: j)
  from b have nb: "b \<noteq> CHR 0x22" "b \<noteq> CHR 0x5C" "\<not> byte b < 0x20"
    by (auto simp: byte_def)
  have "stringStep (b # (take j bs @ X)) =
      Emit (take (runeSize (b # (take j bs @ X))) (b # (take j bs @ X)))
           (drop (runeSize (b # (take j bs @ X))) (b # (take j bs @ X)))"
    using nb b rs k(2) unfolding shape by (simp add: stringStep_def)
  also have "runeSize (b # (take j bs @ X)) = k" using rs unfolding shape .
  finally show ?thesis using len unfolding shape [symmetric] by simp
qed

lemma runeSize_2028: "take 3 s = [CHR 0xE2, CHR 0x80, CHR 0xA8] \<Longrightarrow> runeSize s = 3"
  by (cases s) (auto simp: runeSize.simps inRange_def secondLo_def secondHi_def byte_def
      split: list.splits if_splits)

lemma runeSize_2029: "take 3 s = [CHR 0xE2, CHR 0x80, CHR 0xA9] \<Longrightarrow> runeSize s = 3"
  by (cases s) (auto simp: runeSize.simps inRange_def secondLo_def secondHi_def byte_def
      split: list.splits if_splits)

lemma parseString_appendString:
  "parseString (appendString s @ CHR 0x22 # rest) = Some (coerceUTF8 s, rest)"
proof (induction s rule: appendString.induct)
  case 1
  show ?case
    by (simp add: appendString.simps coerceUTF8.simps parseString_End stringStep_def)
next
  case (2 b bs)
  let ?k = "runeSize (b # bs)"
  show ?case
  proof (cases "byte b < 0x80")
    case True
    with 2 have ih: "parseString (appendString bs @ CHR 0x22 # rest) = Some (coerceUTF8 bs, rest)"
      by simp
    have c: "coerceUTF8 (b # bs) = b # coerceUTF8 bs"
      using True by (simp add: coerceUTF8.simps)
    show ?thesis
    proof (cases "htmlSafe b")
      case s: True
      have "appendString (b # bs) = b # appendString bs"
        using True s by (simp add: appendString.simps)
      then show ?thesis
        by (simp add: parseString_Emit [OF step_safe [OF s]] ih c prepend_def)
    next
      case s: False
      have "appendString (b # bs) = escapeByte b @ appendString bs"
        using True s by (simp add: appendString.simps)
      then show ?thesis
        by (simp add: parseString_Emit [OF step_escaped [OF True s]] ih c prepend_def)
    qed
  next
    case False
    show ?thesis
    proof (cases "?k = 1")
      case True
      with 2 False
      have ih: "parseString (appendString bs @ CHR 0x22 # rest) = Some (coerceUTF8 bs, rest)"
        by simp
      have c: "coerceUTF8 (b # bs) = replacementChar @ coerceUTF8 bs"
        using True False by (simp add: coerceUTF8.simps)
      have "appendString (b # bs) =
          CHR 0x5C # CHR ''u'' # CHR ''f'' # CHR ''f'' # CHR ''f'' # CHR ''d'' # appendString bs"
        using True False by (simp add: appendString.simps)
      then show ?thesis
        by (simp add: parseString_Emit [OF step_fffd] ih c prepend_def)
    next
      case k: False
      have c: "coerceUTF8 (b # bs) = take ?k (b # bs) @ coerceUTF8 (drop (?k - 1) bs)"
        using k False by (simp add: coerceUTF8.simps)
      show ?thesis
      proof (cases "take 3 (b # bs) = [CHR 0xE2, CHR 0x80, CHR 0xA8]")
        case True
        then have k3: "?k = 3" by (rule runeSize_2028)
        from 2(3) False k True
        have ih: "parseString (appendString (drop 2 bs) @ CHR 0x22 # rest)
            = Some (coerceUTF8 (drop 2 bs), rest)" by simp
        have "appendString (b # bs) =
            CHR 0x5C # CHR ''u'' # CHR ''2'' # CHR ''0'' # CHR ''2'' # CHR ''8''
              # appendString (drop 2 bs)"
          using k False True by (simp add: appendString.simps)
        moreover have "coerceUTF8 (b # bs) = [CHR 0xE2, CHR 0x80, CHR 0xA8] @ coerceUTF8 (drop 2 bs)"
          using c unfolding k3 True by simp
        ultimately show ?thesis
          by (simp add: parseString_Emit [OF step_2028] ih prepend_def)
      next
        case n28: False
        show ?thesis
        proof (cases "take 3 (b # bs) = [CHR 0xE2, CHR 0x80, CHR 0xA9]")
          case True
          then have k3: "?k = 3" by (rule runeSize_2029)
          from 2(4) False k n28 True
          have ih: "parseString (appendString (drop 2 bs) @ CHR 0x22 # rest)
              = Some (coerceUTF8 (drop 2 bs), rest)" by simp
          have "appendString (b # bs) =
              CHR 0x5C # CHR ''u'' # CHR ''2'' # CHR ''0'' # CHR ''2'' # CHR ''9''
                # appendString (drop 2 bs)"
            using k False n28 True by (simp add: appendString.simps)
        moreover have "coerceUTF8 (b # bs) = [CHR 0xE2, CHR 0x80, CHR 0xA9] @ coerceUTF8 (drop 2 bs)"
            using c unfolding k3 True by simp
          ultimately show ?thesis
            by (simp add: parseString_Emit [OF step_2029] ih prepend_def)
        next
          case n29: False
          from 2(5) False k n28 n29
          have ih: "parseString (appendString (drop (?k - 1) bs) @ CHR 0x22 # rest)
              = Some (coerceUTF8 (drop (?k - 1) bs), rest)" by simp
          have a: "appendString (b # bs) = take ?k (b # bs) @ appendString (drop (?k - 1) bs)"
            by (subst appendString.simps) (simp only: False k n28 n29 if_False)
          have "parseString (appendString (b # bs) @ CHR 0x22 # rest) =
              parseString (take ?k (b # bs) @ (appendString (drop (?k - 1) bs) @ CHR 0x22 # rest))"
            by (simp only: a append_assoc)
          also have "\<dots> = prepend (take ?k (b # bs))
                  (parseString (appendString (drop (?k - 1) bs) @ CHR 0x22 # rest))"
            by (rule parseString_Emit) (rule step_copy [OF False refl k])
          also have "\<dots> = prepend (take ?k (b # bs)) (Some (coerceUTF8 (drop (?k - 1) bs), rest))"
            by (simp only: ih)
          also have "\<dots> = Some (coerceUTF8 (b # bs), rest)"
            by (simp only: c prepend_def option.case prod.case)
          finally show ?thesis .
        qed
      qed
    qed
  qed
qed

lemma coerceUTF8_valid: "validUTF8 s \<Longrightarrow> coerceUTF8 s = s"
proof (induction s rule: coerceUTF8.induct)
  case 1
  show ?case by (simp add: coerceUTF8.simps)
next
  case (2 b bs)
  show ?case
  proof (cases "byte b < 0x80")
    case True
    with 2 show ?thesis by (simp add: coerceUTF8.simps validUTF8.simps)
  next
    case False
    with 2(4) have k: "runeSize (b # bs) \<noteq> 1"
      and v: "validUTF8 (drop (runeSize (b # bs) - 1) bs)"
      by (simp_all add: validUTF8.simps)
    from 2(3) False k v have ih: "coerceUTF8 (drop (runeSize (b # bs) - 1) bs)
        = drop (runeSize (b # bs) - 1) bs" by simp
    from runeSize_pos [of "b # bs"] obtain j where j: "runeSize (b # bs) = Suc j"
      by (cases "runeSize (b # bs)") auto
    show ?thesis using False k ih by (simp add: coerceUTF8.simps j)
  qed
qed

subsection \<open>Documents\<close>

lemma isSpace_simps [simp]:
  "isSpace (CHR 0x0A)" "isSpace (CHR '' '')" "\<not> isSpace (CHR '','')" "\<not> isSpace (CHR '']'')"
  "\<not> isSpace (CHR ''}'')" "\<not> isSpace (CHR 0x22)" "\<not> isSpace (CHR '':'')"
  "\<not> isSpace (CHR ''['')" "\<not> isSpace (CHR ''{'')" "\<not> isSpace (CHR ''n'')"
  by (simp_all add: isSpace_def)

lemma skipSpace_Cons: "skipSpace (c # s) = (if isSpace c then skipSpace s else c # s)"
  by (simp add: skipSpace_def)

lemma skipSpace_indent: "skipSpace (concat (replicate d ''    '') @ s) = skipSpace s"
  by (induction d) (simp_all add: skipSpace_Cons)

lemma skipSpace_newline: "skipSpace (newline d @ s) = skipSpace s"
  by (simp add: newline_def skipSpace_Cons skipSpace_indent)

lemma parseValue_newline: "parseValue n (newline d @ s) = parseValue n s"
  by (cases n) (simp_all add: skipSpace_newline)

lemma parseValue_space: "parseValue n (CHR '' '' # s) = parseValue n s"
  by (cases n) (simp_all add: skipSpace_Cons)

lemma numEnd_simps [simp]:
  "numEnd []" "numEnd (CHR '','' # s)" "numEnd (newline d @ s)"
  by (simp_all add: numEnd_def newline_def isDigit_def byte_def)

lemma indentValue_start:
  "supported v \<Longrightarrow> \<exists>c cs. indentValue d v = c # cs \<and> valueStart c"
proof (cases v)
  case (GoInt i)
  obtain c cs where cs: "formatInt i = c # cs"
    using formatInt_nonempty [of i] by (cases "formatInt i") auto
  with hd_formatInt [of i] have "\<not> isSpace c" by simp
  moreover have "c \<noteq> CHR '']'' \<and> c \<noteq> CHR ''}''"
  proof (cases "i < 0")
    case True
    with cs show ?thesis by (auto simp: formatInt_def)
  next
    case False
    with cs digits_all [of "nat i"] have "isDigit c" by (simp add: formatInt_def)
    then show ?thesis by (auto simp: isDigit_def byte_def)
  qed
  ultimately show ?thesis using GoInt cs by (simp add: valueStart_def)
qed (simp_all add: valueStart_def quote_def)

lemma nesting_pos: "0 < nesting v"
  by (cases v) simp_all

lemma nesting_member: "v \<in> set vs \<Longrightarrow> f v \<le> foldr max (map f vs) (0::nat)"
  by (induction vs) auto

lemma parseValue_GoInt:
  assumes "0 < n" "numEnd rest"
  shows "parseValue n (formatInt i @ rest) = Some (JNumber (formatInt i), rest)"
proof -
  from assms(1) obtain n' where n: "n = Suc n'" by (cases n) auto
  obtain c cs where cs: "formatInt i = c # cs"
    using formatInt_nonempty [of i] by (cases "formatInt i") auto
  from hd_formatInt [of i] cs
  have h: "c \<noteq> CHR ''{''" "c \<noteq> CHR ''[''" "c \<noteq> CHR 0x22" "c \<noteq> CHR ''t''" "c \<noteq> CHR ''f''"
    "c \<noteq> CHR ''n''" "\<not> isSpace c" by simp_all
  have "scanNumber (c # cs @ rest) = Some (c # cs, rest)"
    using scanNumber_formatInt [OF assms(2), of i] by (simp add: cs)
  then show ?thesis
    using h by (simp add: n cs skipSpace_Cons wrap_def)
qed

lemma parseValue_GoString:
  assumes "0 < n"
  shows "parseValue n (quote s @ rest) = Some (JString (coerceUTF8 s), rest)"
proof -
  from assms(1) obtain n' where n: "n = Suc n'" by (cases n) auto
  show ?thesis
    by (simp add: n quote_def skipSpace_Cons wrap_def parseString_appendString)
qed

lemma parseValue_GoNil:
  assumes "0 < n"
  shows "parseValue n (''null'' @ rest) = Some (JNull, rest)"
proof -
  from assms(1) obtain n' where n: "n = Suc n'" by (cases n) auto
  show ?thesis by (simp add: n skipSpace_Cons scanLiteral_def)
qed

lemma parseElems_indentElems:
  assumes ih: "\<And>v d n rest. v \<in> set vs \<Longrightarrow> supported v \<Longrightarrow> nesting v \<le> n \<Longrightarrow> numEnd rest \<Longrightarrow>
      parseValue n (indentValue d v @ rest) = Some (jsonOf v, rest)"
    and "vs \<noteq> []" "list_all supported vs" "\<forall>v\<in>set vs. nesting v \<le> n" "length vs \<le> m"
  shows "parseElems (parseValue n) m
           (newline d1 @ indentElems d vs @ newline d2 @ CHR '']'' # rest)
         = Some (map jsonOf vs, rest)"
  using assms
proof (induction vs arbitrary: m d1)
  case Nil
  then show ?case by simp
next
  case (Cons v vs)
  from Cons.prems(5) obtain m' where m: "m = Suc m'" and m': "length vs \<le> m'"
    by (cases m) auto
  from Cons.prems(3) have sv: "supported v" and svs: "list_all supported vs" by simp_all
  from Cons.prems(4) have nv: "nesting v \<le> n" and nvs: "\<forall>v\<in>set vs. nesting v \<le> n" by simp_all
  show ?case
  proof (cases "vs = []")
    case True
    have "parseValue n (indentValue d v @ (newline d2 @ CHR '']'' # rest))
        = Some (jsonOf v, newline d2 @ CHR '']'' # rest)"
      by (rule Cons.prems(1)) (simp_all add: sv nv)
    then show ?thesis
      by (simp add: m True parseValue_newline skipSpace_newline skipSpace_Cons)
  next
    case False
    let ?R = "CHR '','' # (newline d @ indentElems d vs @ newline d2 @ CHR '']'' # rest)"
    have 1: "parseValue n (indentValue d v @ ?R) = Some (jsonOf v, ?R)"
      by (rule Cons.prems(1)) (simp_all add: sv nv)
    have 2: "parseElems (parseValue n) m'
        (newline d @ indentElems d vs @ newline d2 @ CHR '']'' # rest) = Some (map jsonOf vs, rest)"
      by (rule Cons.IH) (use Cons.prems(1) False svs nvs m' in simp_all)
    show ?thesis
      using False
      by (simp add: m parseValue_newline 1 skipSpace_Cons 2 consElem_def)
  qed
qed

lemma parseKey_quote:
  "parseKey (newline d1 @ quote k @ CHR '':'' # X) = Some (coerceUTF8 k, X)"
  by (simp add: parseKey_def skipSpace_newline quote_def skipSpace_Cons
      parseString_appendString)

lemma parseMembers_indentFields:
  assumes ih: "\<And>f d n rest. f \<in> set fs \<Longrightarrow> supported (snd f) \<Longrightarrow> nesting (snd f) \<le> n \<Longrightarrow>
      numEnd rest \<Longrightarrow>
      parseValue n (indentValue d (snd f) @ rest) = Some (jsonOf (snd f), rest)"
    and "fs \<noteq> []" "list_all (\<lambda>f. supported (snd f)) fs" "\<forall>f\<in>set fs. nesting (snd f) \<le> n"
      "length fs \<le> m"
  shows "parseMembers (parseValue n) m
           (newline d1 @ indentFields d fs @ newline d2 @ CHR ''}'' # rest)
         = Some (map (\<lambda>f. (coerceUTF8 (fst f), jsonOf (snd f))) fs, rest)"
  using assms
proof (induction fs arbitrary: m d1)
  case Nil
  then show ?case by simp
next
  case (Cons f fs)
  from Cons.prems(5) obtain m' where m: "m = Suc m'" and m': "length fs \<le> m'"
    by (cases m) auto
  from Cons.prems(3) have sv: "supported (snd f)" and svs: "list_all (\<lambda>f. supported (snd f)) fs"
    by simp_all
  from Cons.prems(4) have nv: "nesting (snd f) \<le> n"
    and nvs: "\<forall>f\<in>set fs. nesting (snd f) \<le> n" by simp_all
  show ?case
  proof (cases "fs = []")
    case True
    have "parseValue n (indentValue d (snd f) @ (newline d2 @ CHR ''}'' # rest))
        = Some (jsonOf (snd f), newline d2 @ CHR ''}'' # rest)"
      by (rule Cons.prems(1)) (simp_all add: sv nv)
    then show ?thesis
      by (simp add: m True parseKey_quote parseValue_space skipSpace_newline skipSpace_Cons)
  next
    case False
    let ?R = "CHR '','' # (newline d @ indentFields d fs @ newline d2 @ CHR ''}'' # rest)"
    have 1: "parseValue n (indentValue d (snd f) @ ?R) = Some (jsonOf (snd f), ?R)"
      by (rule Cons.prems(1)) (simp_all add: sv nv)
    have 2: "parseMembers (parseValue n) m'
        (newline d @ indentFields d fs @ newline d2 @ CHR ''}'' # rest)
        = Some (map (\<lambda>f. (coerceUTF8 (fst f), jsonOf (snd f))) fs, rest)"
      by (rule Cons.IH) (use Cons.prems(1) False svs nvs m' in simp_all)
    show ?thesis
      using False
      by (simp add: m parseKey_quote parseValue_space 1 skipSpace_Cons 2 consElem_def)
  qed
qed

lemma indentElems_start:
  "vs \<noteq> [] \<Longrightarrow> list_all supported vs \<Longrightarrow> \<exists>c cs. indentElems d vs @ X = c # cs \<and> valueStart c"
proof (cases vs)
  case Nil
  then show "vs \<noteq> [] \<Longrightarrow> ?thesis" by simp
next
  case (Cons v vs')
  assume "list_all supported vs"
  with Cons have "supported v" by simp
  from indentValue_start [OF this, of d] obtain c cs where "indentValue d v = c # cs" "valueStart c"
    by blast
  with Cons show ?thesis by simp
qed

lemma indentFields_start:
  "fs \<noteq> [] \<Longrightarrow> \<exists>cs. indentFields d fs @ X = CHR 0x22 # cs"
  by (cases fs) (simp_all add: quote_def)

lemma parseValue_indentValue:
  "supported v \<Longrightarrow> nesting v \<le> n \<Longrightarrow> numEnd rest \<Longrightarrow>
   parseValue n (indentValue d v @ rest) = Some (jsonOf v, rest)"
proof (induction v arbitrary: d n rest)
  case (GoInt i)
  then show ?case by (simp add: parseValue_GoInt)
next
  case (GoString s)
  then show ?case by (simp add: parseValue_GoString)
next
  case GoNil
  then show ?case using parseValue_GoNil [of n rest] by simp
next
  case GoChan
  then show ?case by simp
next
  case (GoSlice vs)
  from GoSlice.prems(2) obtain n' where n: "n = Suc n'"
    and len: "length vs \<le> n'" and nest: "foldr max (map nesting vs) 0 \<le> n'"
    by (cases n) auto
  show ?case
  proof (cases "vs = []")
    case True
    then show ?thesis by (simp add: n skipSpace_Cons isEmptyBracket_def)
  next
    case False
    from GoSlice.prems(1) have sup: "list_all supported vs" by simp
    have nv: "\<forall>v\<in>set vs. nesting v \<le> n'"
      using nest nesting_member [of _ vs nesting] by (meson le_trans)
    let ?X = "newline d @ CHR '']'' # rest"
    from indentElems_start [OF False sup, of "Suc d" ?X]
    obtain c cs where c: "indentElems (Suc d) vs @ ?X = c # cs" "valueStart c" by blast
    then have ne: "\<not> isEmptyBracket (CHR '']'') (newline (Suc d) @ indentElems (Suc d) vs @ ?X)"
      by (simp add: isEmptyBracket_def skipSpace_newline skipSpace_Cons valueStart_def)
    have "parseElems (parseValue n') n' (newline (Suc d) @ indentElems (Suc d) vs @ ?X)
        = Some (map jsonOf vs, rest)"
      by (rule parseElems_indentElems) (use GoSlice.IH False sup nv len in simp_all)
    then show ?thesis
      using False ne by (simp add: n skipSpace_Cons wrap_def)
  qed
next
  case (GoStruct fs)
  from GoStruct.prems(2) obtain n' where n: "n = Suc n'"
    and len: "length fs \<le> n'" and nest: "foldr max (map (\<lambda>f. nesting (snd f)) fs) 0 \<le> n'"
    by (cases n) auto
  show ?case
  proof (cases "fs = []")
    case True
    then show ?thesis by (simp add: n skipSpace_Cons isEmptyBracket_def)
  next
    case False
    from GoStruct.prems(1) have sup: "list_all (\<lambda>f. supported (snd f)) fs" by simp
    have nv: "\<forall>f\<in>set fs. nesting (snd f) \<le> n'"
      using nest nesting_member [of _ fs "\<lambda>f. nesting (snd f)"] by (meson le_trans)
    let ?X = "newline d @ CHR ''}'' # rest"
    from indentFields_start [OF False, of "Suc d" ?X]
    obtain cs where c: "indentFields (Suc d) fs @ ?X = CHR 0x22 # cs" by blast
    then have ne: "\<not> isEmptyBracket (CHR ''}'') (newline (Suc d) @ indentFields (Suc d) fs @ ?X)"
      by (simp add: isEmptyBracket_def skipSpace_newline skipSpace_Cons)
    have ih: "parseValue n (indentValue d (snd f) @ rest) = Some (jsonOf (snd f), rest)"
      if "f \<in> set fs" "supported (snd f)" "nesting (snd f) \<le> n" "numEnd rest"
      for f d n rest
    proof -
      obtain k v where f: "f = (k, v)" by (cases f)
      with that(1) have "v \<in> Basic_BNFs.snds f" by simp
      from GoStruct.IH [OF that(1) this] that(2-4) f show ?thesis by simp
    qed
    have "parseMembers (parseValue n') n' (newline (Suc d) @ indentFields (Suc d) fs @ ?X)
        = Some (map (\<lambda>f. (coerceUTF8 (fst f), jsonOf (snd f))) fs, rest)"
      by (rule parseMembers_indentFields) (use ih False sup nv len in simp_all)
    then show ?thesis
      using False ne by (simp add: n skipSpace_Cons wrap_def)
  qed
qed

lemma length_indentElems:
  assumes "\<And>v d. v \<in> set vs \<Longrightarrow> supported v \<Longrightarrow> nesting v \<le> length (indentValue d v)"
    and "list_all supported vs"
  shows "length vs \<le> length (indentElems d vs) \<and>
         foldr max (map nesting vs) 0 \<le> length (indentElems d vs)"
  using assms
proof (induction vs)
  case Nil
  then show ?case by simp
next
  case (Cons v vs)
  from Cons.prems(2) have sv: "supported v" and svs: "list_all supported vs" by simp_all
  have 1: "nesting v \<le> length (indentValue d v)" by (rule Cons.prems(1)) (simp_all add: sv)
  have 2: "length vs \<le> length (indentElems d vs) \<and>
         foldr max (map nesting vs) 0 \<le> length (indentElems d vs)"
    by (rule Cons.IH) (use Cons.prems(1) svs in simp_all)
  from nesting_pos [of v] 1 2 show ?case by auto
qed

lemma length_indentFields:
  assumes "\<And>f d. f \<in> set fs \<Longrightarrow> supported (snd f) \<Longrightarrow>
      nesting (snd f) \<le> length (indentValue d (snd f))"
    and "list_all (\<lambda>f. supported (snd f)) fs"
  shows "length fs \<le> length (indentFields d fs) \<and>
         foldr max (map (\<lambda>f. nesting (snd f)) fs) 0 \<le> length (indentFields d fs)"
  using assms
proof (induction fs)
  case Nil
  then show ?case by simp
next
  case (Cons f fs)
  from Cons.prems(2) have sv: "supported (snd f)" and svs: "list_all (\<lambda>f. supported (snd f)) fs"
    by simp_all
  have 1: "nesting (snd f) \<le> length (indentValue d (snd f))"
    by (rule Cons.prems(1)) (simp_all add: sv)
  have 2: "length fs \<le> length (indentFields d fs) \<and>
         foldr max (map (\<lambda>f. nesting (snd f)) fs) 0 \<le> length (indentFields d fs)"
    by (rule Cons.IH) (use Cons.prems(1) svs in simp_all)
  from nesting_pos [of "snd f"] 1 2 show ?case by auto
qed

lemma nesting_le_length: "supported v \<Longrightarrow> nesting v \<le> length (indentValue d v)"
proof (induction v arbitrary: d)
  case (GoInt i)
  then show ?case using formatInt_nonempty [of i] by (cases "formatInt i") simp_all
next
  case (GoString s)
  then show ?case by (simp add: quote_def)
next
  case GoNil
  then show ?case by simp
next
  case GoChan
  then show ?case by simp
next
  case (GoSlice vs)
  then have sup: "list_all supported vs" by simp
  from length_indentElems [OF GoSlice.IH sup, of "Suc d"]
  show ?case by (auto simp: newline_def)
next
  case (GoStruct fs)
  then have sup: "list_all (\<lambda>f. supported (snd f)) fs" by simp
  have ih: "nesting (snd f) \<le> length (indentValue d (snd f))"
    if "f \<in> set fs" "supported (snd f)" for f d
  proof -
    obtain k v where f: "f = (k, v)" by (cases f)
    with that(1) have "v \<in> Basic_BNFs.snds f" by simp
    from GoStruct.IH [OF that(1) this] that(2) f show ?thesis by simp
  qed
  from length_indentFields [OF ih sup, of "Suc d"]
  show ?case by (auto simp: newline_def)
qed

lemma parse_document:
  assumes "supported v"
  shows "parseValue (length (indentValue 0 v)) (indentValue 0 v) = Some (jsonOf v, [])"
  using parseValue_indentValue [OF assms nesting_le_length [OF assms], of "[]" 0] by simp

subsection \<open>The report read back\<close>

lemma foldName_fields:
  "foldName ''summary'' = ''SUMMARY''"
  "foldName ''newResourceTags'' = ''NEWRESOURCETAGS''"
  "foldName ''updatedResourceTags'' = ''UPDATEDRESOURCETAGS''"
  "foldName ''scanned'' = ''SCANNED''"
  "foldName ''newResources'' = ''NEWRESOURCES''"
  "foldName ''updatedResources'' = ''UPDATEDRESOURCES''"
  "foldName ''file'' = ''FILE''"
  "foldName ''resourceId'' = ''RESOURCEID''"
  "foldName ''key'' = ''KEY''"
  "foldName ''oldValue'' = ''OLDVALUE''"
  "foldName ''updatedValue'' = ''UPDATEDVALUE''"
  "foldName ''yorTraceId'' = ''YORTRACEID''"
  by (simp_all add: foldName.simps foldByte_def inRange_def byte_def char_of_eq_iff)

lemma fieldIs_fields:
  "fieldIs ''summary'' ''summary''"
  "\<not> fieldIs ''summary'' ''newResourceTags''"
  "fieldIs ''newResourceTags'' ''newResourceTags''"
  "\<not> fieldIs ''summary'' ''updatedResourceTags''"
  "\<not> fieldIs ''newResourceTags'' ''updatedResourceTags''"
  "fieldIs ''updatedResourceTags'' ''updatedResourceTags''"
  "fieldIs ''scanned'' ''scanned''"
  "\<not> fieldIs ''scanned'' ''newResources''"
  "fieldIs ''newResources'' ''newResources''"
  "\<not> fieldIs ''scanned'' ''updatedResources''"
  "\<not> fieldIs ''newResources'' ''updatedResources''"
  "fieldIs ''updatedResources'' ''updatedResources''"
  "fieldIs ''file'' ''file''"
  "\<not> fieldIs ''file'' ''resourceId''"
  "fieldIs ''resourceId'' ''resourceId''"
  "\<not> fieldIs ''file'' ''key''"
  "\<not> fieldIs ''resourceId'' ''key''"
  "fieldIs ''key'' ''key''"
  "\<not> fieldIs ''file'' ''oldValue''"
  "\<not> fieldIs ''resourceId'' ''oldValue''"
  "\<not> fieldIs ''key'' ''oldValue''"
  "fieldIs ''oldValue'' ''oldValue''"
  "\<not> fieldIs ''file'' ''updatedValue''"
  "\<not> fieldIs ''resourceId'' ''updatedValue''"
  "\<not> fieldIs ''key'' ''updatedValue''"
  "\<not> fieldIs ''oldValue'' ''updatedValue''"
  "fieldIs ''updatedValue'' ''updatedValue''"
  "\<not> fieldIs ''file'' ''yorTraceId''"
  "\<not> fieldIs ''resourceId'' ''yorTraceId''"
  "\<not> fieldIs ''key'' ''yorTraceId''"
  "\<not> fieldIs ''oldValue'' ''yorTraceId''"
  "\<not> fieldIs ''updatedValue'' ''yorTraceId''"
  "fieldIs ''yorTraceId'' ''yorTraceId''"
  by (simp_all add: fieldIs_def foldName_fields)

lemma coerceUTF8_fields:
  "coerceUTF8 ''summary'' = ''summary''"
  "coerceUTF8 ''newResourceTags'' = ''newResourceTags''"
  "coerceUTF8 ''updatedResourceTags'' = ''updatedResourceTags''"
  "coerceUTF8 ''scanned'' = ''scanned''"
  "coerceUTF8 ''newResources'' = ''newResources''"
  "coerceUTF8 ''updatedResources'' = ''updatedResources''"
  "coerceUTF8 ''file'' = ''file''"
  "coerceUTF8 ''resourceId'' = ''resourceId''"
  "coerceUTF8 ''key'' = ''key''"
  "coerceUTF8 ''oldValue'' = ''oldValue''"
  "coerceUTF8 ''updatedValue'' = ''updatedValue''"
  "coerceUTF8 ''yorTraceId'' = ''yorTraceId''"
  by (simp_all add: coerceUTF8.simps byte_def)

lemma decodeSummary_reflectSummary:
  assumes "goInt (Scanned s)" "goInt (NewResources s)" "goInt (UpdatedResources s)"
  shows "decodeSummary (jsonOf (reflectSummary s)) cur = Inr s"
  using assms
  by (simp add: reflectSummary_def coerceUTF8_fields decodeSummaryMember_def fieldIs_fields parseInt_formatInt setField_def)

lemma decodeTagRecord_reflectTagRecord:
  "decodeTagRecord (jsonOf (reflectTagRecord t)) cur = Inr (coerceTagRecord t)"
  by (simp add: reflectTagRecord_def coerceUTF8_fields decodeTagRecordMember_def fieldIs_fields setField_def coerceTagRecord_def)

lemma decodeElems_reflectTagRecord:
  "decodeElems (map (\<lambda>t. jsonOf (reflectTagRecord t)) ts) [] = Inr (map coerceTagRecord ts)"
  by (induction ts) (simp_all add: decodeTagRecord_reflectTagRecord)

lemma decodeTagRecords_reflectTagRecords:
  "decodeTagRecords (jsonOf (reflectTagRecords s)) None
     = Inr (map_option (map coerceTagRecord) s)"
  by (cases s)
    (simp_all add: reflectTagRecords_def comp_def decodeElems_reflectTagRecord setField_def)

lemma decodeReport_reflectReport:
  assumes "goInts r"
  shows "decodeReport (jsonOf (reflectReport r)) zeroReport = Inr (coerceReport r)"
proof -
  from assms have s: "decodeSummary (jsonOf (reflectSummary (Summary r))) cur = Inr (Summary r)"
    for cur
    by (intro decodeSummary_reflectSummary) (simp_all add: goInts_def)
  show ?thesis
    by (simp add: reflectReport_def coerceUTF8_fields decodeReportMember_def fieldIs_fields setField_def s zeroReport_def decodeTagRecords_reflectTagRecords
        coerceReport_def)
qed

lemma Unmarshal_document:
  assumes "goInts r"
  shows "Unmarshal (indentValue 0 (reflectReport r)) = Inr (coerceReport r)"
  by (simp add: Unmarshal_def parse_document [OF supported_reflectReport] skipSpace_def
      decodeReport_reflectReport [OF assms])

lemma roundTrip_coerceReport: "goInts r \<Longrightarrow> roundTrip r = Inr (coerceReport r)"
  by (simp add: roundTrip_def AsJSONBytes_def MarshalIndent_def supported_reflectReport
      Unmarshal_document)

lemma coerceTagRecord_valid: "validTagRecord t \<Longrightarrow> coerceTagRecord t = t"
  by (simp add: validTagRecord_def coerceTagRecord_def coerceUTF8_valid)

lemma coerceReport_valid:
  assumes "validReport r"
  shows "coerceReport r = r"
proof -
  have m: "map_option (map coerceTagRecord) s = s" if "list_all validTagRecord (elems s)" for s
  proof (cases s)
    case None
    then show ?thesis by simp
  next
    case (Some ts)
    with that have "map coerceTagRecord ts = ts"
      by (simp add: list_all_iff map_idI coerceTagRecord_valid)
    with Some show ?thesis by simp
  qed
  from assms show ?thesis by (simp add: coerceReport_def validReport_def m)
qed

text \<open>
  C6, as the code has it: reading back the document of a report gives the report with
  every string coerced to valid UTF-8, each byte that begins no well-formed sequence
  replaced by U+FFFD; so it gives the report itself when all its strings are valid UTF-8.
  The counters are 64-bit integers, as they are in Go.
\<close>

theorem roundTrip_valid_utf8:
  "goInts r \<Longrightarrow>
   roundTrip r = Inr (coerceReport r) \<and> (validReport r \<longrightarrow> roundTrip r = Inr r)"
  by (simp add: roundTrip_coerceReport coerceReport_valid)

lemma runeSize_ff: "runeSize [CHR 0xFF] = 1"
  by (simp add: runeSize.simps inRange_def byte_def)

lemma coerceUTF8_ascii_literals:
  "coerceUTF8 ''aws_s3_bucket.data'' = ''aws_s3_bucket.data''"
  "coerceUTF8 ''env'' = ''env''" "coerceUTF8 ''prod'' = ''prod''" "coerceUTF8 ''t1'' = ''t1''"
  "coerceUTF8 [] = []"
  by (simp_all add: coerceUTF8.simps byte_def)

lemma coerceUTF8_ff: "coerceUTF8 [CHR 0xFF] = replacementChar"
  by (simp add: coerceUTF8.simps runeSize_ff byte_def)

text \<open>
  C6 as stated fails: the file name of the record is the byte 0xFF, which is not UTF-8;
  the document holds the escape of U+FFFD in its place, and reading it back gives the
  three bytes of U+FFFD.
\<close>

theorem roundTrip_invalid_byte_counterexample:
  "roundTrip invalid_byte_report = Inr replaced_byte_report \<and>
   replaced_byte_report \<noteq> invalid_byte_report"
proof -
  have "goInts invalid_byte_report"
    by (simp add: goInts_def goInt_def invalid_byte_report_def)
  then have "roundTrip invalid_byte_report = Inr (coerceReport invalid_byte_report)"
    by (rule roundTrip_coerceReport)
  moreover have "coerceReport invalid_byte_report = replaced_byte_report"
    by (simp add: coerceReport_def invalid_byte_report_def replaced_byte_report_def
        coerceTagRecord_def coerceUTF8_ascii_literals coerceUTF8_ff replacementChar_def)
  moreover have "replaced_byte_report \<noteq> invalid_byte_report"
    by (simp add: invalid_byte_report_def replaced_byte_report_def)
  ultimately show ?thesis by simp
qed

lemma validUTF8_ascii: "list_all (\<lambda>c. byte c < 0x80) s \<Longrightarrow> validUTF8 s"
  by (induction s) (simp_all add: validUTF8.simps)

theorem roundTrip_valid_utf8_witness:
  "goInts sample_report \<and> validReport sample_report \<and>
   roundTrip sample_report = Inr sample_report"
proof -
  have r: "sample_report =
    \<lparr>Summary = \<lparr>Scanned = 2, NewResources = 1, UpdatedResources = 1\<rparr>,
     NewResourceTags =
       Some [\<lparr>File = ''main.tf'', ResourceID = ''aws_s3_bucket.logs'', TagKey = ''yor_trace'',
               OldValue = [], UpdatedValue = ''t1'', YorTraceID = ''t1''\<rparr>,
             \<lparr>File = ''main.tf'', ResourceID = ''aws_s3_bucket.logs'', TagKey = ''env'',
               OldValue = [], UpdatedValue = ''prod'', YorTraceID = ''t1''\<rparr>],
     UpdatedResourceTags =
       Some [\<lparr>File = ''main.tf'', ResourceID = ''aws_s3_bucket.data'', TagKey = ''env'',
               OldValue = [], UpdatedValue = ''prod'', YorTraceID = ''t2''\<rparr>,
             \<lparr>File = ''main.tf'', ResourceID = ''aws_s3_bucket.data'', TagKey = ''owner'',
               OldValue = ''alice'', UpdatedValue = ''bob'', YorTraceID = ''t2''\<rparr>]\<rparr>"
    by (simp add: sample_report_def GetReport_def CreateReport_def initial_world_def
        sample_accumulator_def Let_def newBlockStep_def updatedBlockStep_def
        CalculateTagsDiff_def sortAdded_def sortUpdated_def appendNewResourceTag_def
        appendUpdatedResourceTag_def newTagRecord_def addedTagRecord_def updatedTagRecord_def)
  have g: "goInts sample_report"
    unfolding r by (simp add: goInts_def goInt_def)
  have v: "validReport sample_report"
    unfolding r by (simp add: validReport_def validTagRecord_def validUTF8_ascii byte_def)
  from roundTrip_valid_utf8 [OF g] v g show ?thesis by blast
qed

end
